theory Spec2Isabelle
  imports Main "HOL-Library.Word" "HOL-Library.While_Combinator"
begin

section \<open>The concurrent copying collector of runtime/gc/collector/concurrent_copying.cc\<close>

text \<open>
  The collector's functions are embedded as HOL functions over explicit state.
  A \<^verbatim>\<open>CHECK\<close> of the source that fails aborts the process: every function that
  contains one returns \<open>fatal + 'a\<close>, with \<open>Inl (CheckFailed text)\<close> for the abort and
  the text of the failed check. \<open>Inl LoopsForever\<close> is the value of a retry loop in a
  state in which every further iteration fails the way the last one did.
\<close>

subsection \<open>Failure semantics\<close>

datatype fatal = CheckFailed string | LoopsForever

text \<open>
  \<^verbatim>\<open>CHECK(c) << text\<close> followed by the rest of the function, and the same for a
  \<^verbatim>\<open>DCHECK\<close>, which is compiled in only when \<^verbatim>\<open>kIsDebugBuild\<close> holds.
\<close>

definition CHECK :: "bool \<Rightarrow> string \<Rightarrow> fatal + 'a \<Rightarrow> fatal + 'a" where
  "CHECK c text rest = (if c then rest else Inl (CheckFailed text))"

definition DCHECK :: "bool \<Rightarrow> bool \<Rightarrow> string \<Rightarrow> fatal + 'a \<Rightarrow> fatal + 'a" where
  "DCHECK kIsDebugBuild c text rest =
     (if kIsDebugBuild \<and> \<not> c then Inl (CheckFailed text) else rest)"

definition and_then :: "fatal + 'a \<Rightarrow> ('a \<Rightarrow> fatal + 'b) \<Rightarrow> fatal + 'b" where
  "and_then m f = (case m of Inl e \<Rightarrow> Inl e | Inr x \<Rightarrow> f x)"

subsection \<open>Objects, lock words, classes\<close>

text \<open>
  A \<^verbatim>\<open>mirror::Object*\<close> is an address, \<open>0\<close> for \<^verbatim>\<open>nullptr\<close>; a \<^verbatim>\<open>Thread*\<close> is a
  thread identifier. Addresses and byte sizes are natural numbers: no claim proved
  here depends on an address or an object size wrapping around.
\<close>

type_synonym ref = nat
type_synonym thread = nat

datatype rb_ptr = WhitePtr | GrayPtr | BlackPtr

datatype LockState = kUnlocked | kThinLocked | kFatLocked | kHashCode | kForwardingAddress

text \<open>
  A lock word is its state and the value it carries in that state (for
  \<open>kForwardingAddress\<close>, the address of the copy). \<^verbatim>\<open>lock_word.h\<close> is not among the
  sources; only the three operations the collector calls are modelled.
\<close>

datatype LockWord = LockWord LockState nat

fun GetState :: "LockWord \<Rightarrow> LockState" where
  "GetState (LockWord st v) = st"

fun ForwardingAddress :: "LockWord \<Rightarrow> ref" where
  "ForwardingAddress (LockWord st v) = v"

definition FromForwardingAddress :: "ref \<Rightarrow> LockWord" where
  "FromForwardingAddress target = LockWord kForwardingAddress target"

record Class =
  IsTypeOfReferenceClass :: bool
  IsArrayClass :: bool
  GetComponentSize :: nat
  GetObjectSize :: nat

text \<open>
  What the collector reads and writes of an object: the class pointer, the lock
  word, the read barrier pointer, the array length, the reference fields that
  \<^verbatim>\<open>VisitReferences\<close> hands to the field visitor (a field's offset is its index), the
  referent and pending-next fields of a \<^verbatim>\<open>mirror::Reference\<close>, and the native roots
  that \<^verbatim>\<open>VisitReferences\<close> hands to \<^verbatim>\<open>VisitRoot\<close>.
\<close>

record Object =
  klass :: ref
  monitor :: LockWord
  rb_ptr :: rb_ptr
  array_length :: int
  ref_fields :: "ref list"
  referent :: ref
  pending_next :: ref
  native_roots :: "ref list"

text \<open>The object that \<^verbatim>\<open>memset(p, 0, n)\<close> leaves behind.\<close>

definition zeroed :: Object where
  "zeroed = \<lparr>klass = 0, monitor = LockWord kUnlocked 0, rb_ptr = WhitePtr, array_length = 0,
             ref_fields = [], referent = 0, pending_next = 0, native_roots = []\<rparr>"

subsection \<open>Build-time constants\<close>

text \<open>
  The constants and macros the collector uses and whose definitions are in
  headers that are not among the sources. They are parameters of every function.
\<close>

record build =
  kUseBakerReadBarrier :: bool
  USE_BAKER_OR_BROOKS_READ_BARRIER :: bool
  kIsDebugBuild :: bool
  kEnableToSpaceInvariantChecks :: bool
  kEnableFromSpaceAccountingCheck :: bool
  kObjectAlignment :: nat
  kAlignment :: nat
  kRegionSize :: nat
  sizeof_Object :: nat
  sizeof_int32_t :: nat
  DataOffset :: "nat \<Rightarrow> nat"
  kMarkStackPoolSize :: nat

definition RoundUp :: "nat \<Rightarrow> nat \<Rightarrow> nat" where
  "RoundUp x n = ((x + n - 1) div n) * n"

subsection \<open>The state of the collector and of the heap it works on\<close>

datatype RegionType =
  kRegionTypeAll | kRegionTypeFromSpace | kRegionTypeUnevacFromSpace | kRegionTypeToSpace |
  kRegionTypeNone

datatype CollectorType = kCollectorTypeCC | kCollectorTypeOther

datatype MarkStackMode =
  kMarkStackModeOff | kMarkStackModeThreadLocal | kMarkStackModeShared |
  kMarkStackModeGcExclusive

text \<open>An \<^verbatim>\<open>accounting::AtomicStack\<close>: the entries from \<^verbatim>\<open>Begin()\<close> to \<^verbatim>\<open>End()\<close>, and the capacity.\<close>

record ObjectStack =
  entries :: "ref list"
  Capacity :: nat

text \<open>
  The fields of \<^verbatim>\<open>ConcurrentCopying\<close> come first, under their names without the
  trailing underscore; then what the collector reads of the heap, the region space,
  the bitmaps and the threads. \<^verbatim>\<open>size_t\<close> counters are 64-bit words. The fields
  \<open>region_space_AddLiveBytes\<close>, \<open>region_space_FreeLarge\<close>, \<open>region_space_RecordAlloc\<close> and
  \<open>non_moving_space_Free\<close> record the calls of the functions of these names, whose code
  is not among the sources. The last field is the memory of the root slots, by address:
  the \<^verbatim>\<open>mirror::Object*\<close> variables whose addresses \<^verbatim>\<open>VisitRoots\<close> is handed.
  The skipped-blocks map is a \<^verbatim>\<open>std::multimap\<close>: a list of (size, address) pairs kept
  in key order.
\<close>

record ConcurrentCopying =
  thread_running_gc :: "thread option"
  is_marking :: bool
  is_asserting_to_space_invariant :: bool
  gc_grays_immune_objects :: bool
  updated_all_immune_objects :: bool
  is_mark_stack_push_disallowed :: nat
  mark_stack_mode :: MarkStackMode
  gc_mark_stack :: ObjectStack
  pooled_mark_stacks :: "ObjectStack list"
  revoked_mark_stacks :: "ObjectStack list"
  false_gray_stack :: "ref list"
  skipped_blocks_map :: "(nat \<times> ref) list"
  bytes_moved :: "64 word"
  objects_moved :: "64 word"
  to_space_bytes_skipped :: "64 word"
  to_space_objects_skipped :: "64 word"
  from_space_num_objects_at_first_pause :: "64 word"
  from_space_num_bytes_at_first_pause :: "64 word"
  heap :: "ref \<Rightarrow> Object"
  classes :: "ref \<Rightarrow> Class"
  GetRegionType :: "ref \<Rightarrow> RegionType"
  region_space_bitmap :: "ref \<Rightarrow> bool"
  region_space_AddLiveBytes :: "(ref \<times> nat) list"
  immune_spaces_ContainsObject :: "ref \<Rightarrow> bool"
  non_moving_space_HasAddress :: "ref \<Rightarrow> bool"
  has_continuous_space_bitmap :: "ref \<Rightarrow> bool"
  mark_bitmap :: "ref \<Rightarrow> bool"
  has_large_object_bitmap :: "ref \<Rightarrow> bool"
  los_bitmap :: "ref \<Rightarrow> bool"
  allocation_stack :: "ref list"
  num_bytes_allocated :: "64 word"
  use_tlab :: bool
  collector_type :: CollectorType
  IntArray_GetArrayClass :: ref
  java_lang_Object :: ref
  thread_local_mark_stack :: "thread \<Rightarrow> ObjectStack option"
  weak_ref_access_enabled :: "thread \<Rightarrow> bool"
  thread_list :: "thread list"
  region_space_FreeLarge :: "(ref \<times> nat) list"
  region_space_RecordAlloc :: "ref list"
  non_moving_space_Free :: "ref list"
  root_slots :: "nat \<Rightarrow> ref"

text \<open>
  Modelled from the spec: the region space (\<^verbatim>\<open>region_space.h\<close>) is not among the
  sources. Section 4.A gives it \<^verbatim>\<open>GetRegionType(ref)\<close> and the three membership tests,
  which are the region type of the address.
\<close>

definition IsInFromSpace :: "ConcurrentCopying \<Rightarrow> ref \<Rightarrow> bool" where
  "IsInFromSpace s r = (GetRegionType s r = kRegionTypeFromSpace)"

definition IsInUnevacFromSpace :: "ConcurrentCopying \<Rightarrow> ref \<Rightarrow> bool" where
  "IsInUnevacFromSpace s r = (GetRegionType s r = kRegionTypeUnevacFromSpace)"

definition region_space_IsInToSpace :: "ConcurrentCopying \<Rightarrow> ref \<Rightarrow> bool" where
  "region_space_IsInToSpace s r = (GetRegionType s r = kRegionTypeToSpace)"

definition region_space_HasAddress :: "ConcurrentCopying \<Rightarrow> ref \<Rightarrow> bool" where
  "region_space_HasAddress s r = (GetRegionType s r \<noteq> kRegionTypeNone)"

text \<open>
  The length of an array is an \<^verbatim>\<open>int32_t\<close>, sizes are \<^verbatim>\<open>size_t\<close> (64 bits): the two
  conversions, of a size to a length and of a length to a size.
\<close>

definition int32_t :: "nat \<Rightarrow> int" where
  "int32_t n = signed_take_bit 31 (int n)"

definition size_t :: "int \<Rightarrow> nat" where
  "size_t i = nat (i mod 2 ^ 64)"

text \<open>
  Modelled from the spec: \<^verbatim>\<open>mirror::Object::SizeOf\<close> is not among the sources. The size
  of an object is recoverable from its class (section 3): an array takes its header
  up to the data offset and its elements, any other object the object size of its
  class. The size of an array is computed in \<^verbatim>\<open>size_t\<close> from its \<^verbatim>\<open>int32_t\<close> length.
\<close>

definition SizeOf :: "build \<Rightarrow> ConcurrentCopying \<Rightarrow> ref \<Rightarrow> nat" where
  "SizeOf K s obj =
     (let c = classes s (klass (heap s obj))
      in if IsArrayClass c
         then (DataOffset K (GetComponentSize c) +
               size_t (array_length (heap s obj)) * GetComponentSize c) mod 2 ^ 64
         else GetObjectSize c)"

definition GetReadBarrierPointer :: "ConcurrentCopying \<Rightarrow> ref \<Rightarrow> rb_ptr" where
  "GetReadBarrierPointer s obj = rb_ptr (heap s obj)"

definition SetReadBarrierPointer :: "ConcurrentCopying \<Rightarrow> ref \<Rightarrow> rb_ptr \<Rightarrow> ConcurrentCopying" where
  "SetReadBarrierPointer s obj p = s\<lparr>heap := (heap s)(obj := (heap s obj)\<lparr>rb_ptr := p\<rparr>)\<rparr>"

definition GetLockWord :: "ConcurrentCopying \<Rightarrow> ref \<Rightarrow> LockWord" where
  "GetLockWord s obj = monitor (heap s obj)"

definition memset0 :: "ConcurrentCopying \<Rightarrow> ref \<Rightarrow> nat \<Rightarrow> ConcurrentCopying" where
  "memset0 s p n = (if n = 0 then s else s\<lparr>heap := (heap s)(p := zeroed)\<rparr>)"

definition memcpy :: "ConcurrentCopying \<Rightarrow> ref \<Rightarrow> ref \<Rightarrow> nat \<Rightarrow> ConcurrentCopying" where
  "memcpy s dst src n = (if n = 0 then s else s\<lparr>heap := (heap s)(dst := heap s src)\<rparr>)"

subsection \<open>IsOnAllocStack, AssertToSpaceInvariant\<close>

definition IsOnAllocStack :: "ConcurrentCopying \<Rightarrow> ref \<Rightarrow> bool" where
  "IsOnAllocStack s r = (r \<in> set (allocation_stack s))"

definition AssertToSpaceInvariantInNonMovingSpace ::
  "build \<Rightarrow> thread \<Rightarrow> ConcurrentCopying \<Rightarrow> ref \<Rightarrow> ref \<Rightarrow> fatal + unit" where
  "AssertToSpaceInvariantInNonMovingSpace K self s obj r =
    (if immune_spaces_ContainsObject s r then
       (if kUseBakerReadBarrier K then
          (if thread_running_gc s = Some self \<and> \<not> gc_grays_immune_objects s then Inr ()
           else CHECK (updated_all_immune_objects s \<or> GetReadBarrierPointer s r = GrayPtr)
                  ''Unmarked immune space ref.'' (Inr ()))
        else Inr ())
     else
       CHECK (has_large_object_bitmap s r) ''LOS bitmap covers the entire address range''
        (let is_los = \<not> has_continuous_space_bitmap s r
         in if (\<not> is_los \<and> mark_bitmap s r) \<or> (is_los \<and> los_bitmap s r) then Inr ()
            else CHECK (IsOnAllocStack s r)
                   ''Unmarked ref that's not on the allocation stack.'' (Inr ())))"

definition AssertToSpaceInvariant ::
  "build \<Rightarrow> thread \<Rightarrow> ConcurrentCopying \<Rightarrow> ref \<Rightarrow> nat \<Rightarrow> ref \<Rightarrow> fatal + unit" where
  "AssertToSpaceInvariant K self s obj offset r =
    CHECK (collector_type s = kCollectorTypeCC) ''heap_->collector_type_ == kCollectorTypeCC''
     (if is_asserting_to_space_invariant s then
        (if region_space_IsInToSpace s r then Inr ()
         else if IsInUnevacFromSpace s r then
           CHECK (region_space_bitmap s r) ''region_space_bitmap_->Test(ref)'' (Inr ())
         else if IsInFromSpace s r then
           Inl (CheckFailed ''Found from-space ref'')
         else AssertToSpaceInvariantInNonMovingSpace K self s obj r)
      else Inr ())"

subsection \<open>Mark, as the functions of this file call it\<close>

text \<open>
  \<^verbatim>\<open>Mark\<close> is defined in \<^verbatim>\<open>concurrent_copying-inl.h\<close>, which is not among the sources.
  The functions of \<^verbatim>\<open>concurrent_copying.cc\<close> that call it take it as a parameter: a
  function of the template argument \<^verbatim>\<open>kGrayImmuneObject\<close>, the calling thread, the
  reference and the state, which aborts or returns a reference and a state.
\<close>

type_synonym Mark_fn =
  "bool \<Rightarrow> thread \<Rightarrow> ref \<Rightarrow> ConcurrentCopying \<Rightarrow> fatal + (ref \<times> ConcurrentCopying)"

subsection \<open>FillWithDummyObject\<close>

text \<open>
  \<^verbatim>\<open>ScopedGcGraysImmuneObjects\<close>: the constructor returns the value of \<^verbatim>\<open>enabled_\<close>, the
  destructor takes it.
\<close>

definition ScopedGcGraysImmuneObjects_enter ::
  "build \<Rightarrow> thread \<Rightarrow> ConcurrentCopying \<Rightarrow> bool \<times> ConcurrentCopying" where
  "ScopedGcGraysImmuneObjects_enter K self s =
     (if kUseBakerReadBarrier K \<and> thread_running_gc s = Some self \<and>
         \<not> gc_grays_immune_objects s
      then (True, s\<lparr>gc_grays_immune_objects := True\<rparr>)
      else (False, s))"

definition ScopedGcGraysImmuneObjects_exit ::
  "build \<Rightarrow> thread \<Rightarrow> bool \<Rightarrow> ConcurrentCopying \<Rightarrow> fatal + ConcurrentCopying" where
  "ScopedGcGraysImmuneObjects_exit K self enabled s =
     (if kUseBakerReadBarrier K \<and> thread_running_gc s = Some self \<and> enabled
      then DCHECK (kIsDebugBuild K) (gc_grays_immune_objects s)
             ''collector_->gc_grays_immune_objects_''
             (Inr (s\<lparr>gc_grays_immune_objects := False\<rparr>))
      else Inr s)"

definition SetClass :: "ConcurrentCopying \<Rightarrow> ref \<Rightarrow> ref \<Rightarrow> ConcurrentCopying" where
  "SetClass s obj c = s\<lparr>heap := (heap s)(obj := (heap s obj)\<lparr>klass := c\<rparr>)\<rparr>"

definition SetLength :: "ConcurrentCopying \<Rightarrow> ref \<Rightarrow> int \<Rightarrow> ConcurrentCopying" where
  "SetLength s obj n = s\<lparr>heap := (heap s)(obj := (heap s obj)\<lparr>array_length := n\<rparr>)\<rparr>"

definition FillWithDummyObject ::
  "build \<Rightarrow> Mark_fn \<Rightarrow> thread \<Rightarrow> ConcurrentCopying \<Rightarrow> ref \<Rightarrow> nat \<Rightarrow> fatal + ConcurrentCopying" where
  "FillWithDummyObject K Mark self s0 dummy_obj byte_size =
    (let (enabled, s1) = ScopedGcGraysImmuneObjects_enter K self s0 in
     CHECK (byte_size mod kObjectAlignment K = 0) ''CHECK_ALIGNED(byte_size, kObjectAlignment)''
      (let s2 = memset0 s1 dummy_obj byte_size in
       and_then (Mark True self (IntArray_GetArrayClass s2) s2) (\<lambda>(int_array_class, s3).
        CHECK (int_array_class \<noteq> 0) ''int_array_class != nullptr''
         (and_then (AssertToSpaceInvariant K self s3 0 0 int_array_class) (\<lambda>u.
           let component_size = GetComponentSize (classes s3 int_array_class) in
           CHECK (component_size = sizeof_int32_t K) ''CHECK_EQ(component_size, sizeof(int32_t))''
            (let data_offset = DataOffset K component_size in
             if data_offset > byte_size then
               and_then (AssertToSpaceInvariant K self s3 0 0 (java_lang_Object s3)) (\<lambda>u.
                 CHECK (byte_size = GetObjectSize (classes s3 (java_lang_Object s3)))
                   ''CHECK_EQ(byte_size, java_lang_Object->GetObjectSize())''
                  (let s4 = SetClass s3 dummy_obj (java_lang_Object s3) in
                   CHECK (byte_size = SizeOf K s4 dummy_obj)
                     ''CHECK_EQ(byte_size, dummy_obj->SizeOf())''
                    (ScopedGcGraysImmuneObjects_exit K self enabled s4)))
             else
               (let s4 = SetClass s3 dummy_obj int_array_class in
                CHECK (IsArrayClass (classes s4 (klass (heap s4 dummy_obj))))
                  ''dummy_obj->IsArrayInstance()''
                 (let length = int32_t ((byte_size - data_offset) div component_size);
                      s5 = SetLength s4 dummy_obj length in
                  CHECK (array_length (heap s5 dummy_obj) = length)
                    ''CHECK_EQ(dummy_arr->GetLength(), length)''
                   (CHECK (byte_size = SizeOf K s5 dummy_obj)
                     ''CHECK_EQ(byte_size, dummy_obj->SizeOf())''
                     (ScopedGcGraysImmuneObjects_exit K self enabled s5))))))))))"

subsection \<open>The mark stacks\<close>

text \<open>
  Modelled from the spec: \<^verbatim>\<open>accounting::AtomicStack\<close> is not among the sources. Section 3
  describes a bounded LIFO: \<^verbatim>\<open>PushBack\<close> adds at the end, \<^verbatim>\<open>PopBack\<close> takes from the end,
  the stack is full when it holds as many entries as its capacity.
\<close>

definition IsFull :: "ObjectStack \<Rightarrow> bool" where
  "IsFull st = (length (entries st) = Capacity st)"

definition IsEmpty :: "ObjectStack \<Rightarrow> bool" where
  "IsEmpty st = (entries st = [])"

definition PushBack :: "ObjectStack \<Rightarrow> ref \<Rightarrow> ObjectStack" where
  "PushBack st r = st\<lparr>entries := entries st @ [r]\<rparr>"

definition Reset :: "ObjectStack \<Rightarrow> ObjectStack" where
  "Reset st = st\<lparr>entries := []\<rparr>"

definition Create :: "nat \<Rightarrow> ObjectStack" where
  "Create capacity = \<lparr>entries = [], Capacity = capacity\<rparr>"

definition ExpandGcMarkStack :: "build \<Rightarrow> ConcurrentCopying \<Rightarrow> fatal + ConcurrentCopying" where
  "ExpandGcMarkStack K s =
     DCHECK (kIsDebugBuild K) (IsFull (gc_mark_stack s)) ''gc_mark_stack_->IsFull()''
      (let new_size = Capacity (gc_mark_stack s) * 2;
           temp = entries (gc_mark_stack s);
           resized = \<lparr>entries = [], Capacity = new_size\<rparr>;
           refilled = foldl PushBack resized temp
       in DCHECK (kIsDebugBuild K) (\<not> IsFull refilled) ''!gc_mark_stack_->IsFull()''
           (Inr (s\<lparr>gc_mark_stack := refilled\<rparr>)))"

definition push_gc_mark_stack :: "build \<Rightarrow> ConcurrentCopying \<Rightarrow> ref \<Rightarrow> fatal + ConcurrentCopying" where
  "push_gc_mark_stack K s to_ref =
     and_then (if IsFull (gc_mark_stack s) then ExpandGcMarkStack K s else Inr s)
       (\<lambda>s1. Inr (s1\<lparr>gc_mark_stack := PushBack (gc_mark_stack s1) to_ref\<rparr>))"

text \<open>
  \<^verbatim>\<open>PushOntoMarkStack\<close>; \<open>self\<close> is \<^verbatim>\<open>Thread::Current()\<close>. A thread-local mark stack created
  when the pool is empty has \<^verbatim>\<open>4 * KB\<close> entries.
\<close>

definition PushOntoMarkStack ::
  "build \<Rightarrow> thread \<Rightarrow> ConcurrentCopying \<Rightarrow> ref \<Rightarrow> fatal + ConcurrentCopying" where
  "PushOntoMarkStack K self s to_ref =
    CHECK (is_mark_stack_push_disallowed s = 0)
      ''CHECK_EQ(is_mark_stack_push_disallowed_.LoadRelaxed(), 0)''
    (CHECK (thread_running_gc s \<noteq> None) ''thread_running_gc_ != nullptr''
    (let mode = mark_stack_mode s in
     if mode = kMarkStackModeThreadLocal then
       (if Some self = thread_running_gc s then
          CHECK (thread_local_mark_stack s self = None)
            ''self->GetThreadLocalMarkStack() == nullptr''
            (push_gc_mark_stack K s to_ref)
        else
          (let tl_mark_stack = thread_local_mark_stack s self in
           if tl_mark_stack = None \<or> IsFull (the tl_mark_stack) then
             (let (new_tl_mark_stack, pool) =
                    (if pooled_mark_stacks s \<noteq> []
                     then (last (pooled_mark_stacks s), butlast (pooled_mark_stacks s))
                     else (Create 4096, pooled_mark_stacks s))
              in DCHECK (kIsDebugBuild K) (IsEmpty new_tl_mark_stack)
                   ''new_tl_mark_stack->IsEmpty()''
                  (Inr (s\<lparr>pooled_mark_stacks := pool,
                          thread_local_mark_stack :=
                            (thread_local_mark_stack s)
                              (self := Some (PushBack new_tl_mark_stack to_ref)),
                          revoked_mark_stacks :=
                            (case tl_mark_stack of
                               None \<Rightarrow> revoked_mark_stacks s
                             | Some old \<Rightarrow> revoked_mark_stacks s @ [old])\<rparr>)))
           else
             Inr (s\<lparr>thread_local_mark_stack :=
                      (thread_local_mark_stack s)
                        (self := Some (PushBack (the tl_mark_stack) to_ref))\<rparr>)))
     else if mode = kMarkStackModeShared then push_gc_mark_stack K s to_ref
     else
       CHECK (mode = kMarkStackModeGcExclusive)
         ''CHECK_EQ(mark_stack_mode, kMarkStackModeGcExclusive)''
       (CHECK (Some self = thread_running_gc s)
         ''Only GC-running thread should access the mark stack in the GC exclusive mark stack mode''
         (push_gc_mark_stack K s to_ref))))"

definition PushOntoFalseGrayStack ::
  "build \<Rightarrow> ConcurrentCopying \<Rightarrow> ref \<Rightarrow> fatal + ConcurrentCopying" where
  "PushOntoFalseGrayStack K s r =
     CHECK (kUseBakerReadBarrier K) ''kUseBakerReadBarrier''
      (DCHECK (kIsDebugBuild K) (r \<noteq> 0) ''ref != nullptr''
        (Inr (s\<lparr>false_gray_stack := false_gray_stack s @ [r]\<rparr>)))"

subsection \<open>The skipped-blocks map and AllocateInSkippedBlock\<close>

text \<open>
  \<^verbatim>\<open>std::multimap\<close>: \<^verbatim>\<open>lower_bound(k)\<close> is the first entry whose key is at least \<open>k\<close>
  (here: the entries before it and the entries from it on); \<^verbatim>\<open>insert\<close> puts the new
  entry after the entries whose key is not larger.
\<close>

definition lower_bound :: "(nat \<times> ref) list \<Rightarrow> nat \<Rightarrow> (nat \<times> ref) list \<times> (nat \<times> ref) list" where
  "lower_bound m k = (takeWhile (\<lambda>(size, addr). size < k) m, dropWhile (\<lambda>(size, addr). size < k) m)"

definition multimap_insert :: "(nat \<times> ref) list \<Rightarrow> nat \<times> ref \<Rightarrow> (nat \<times> ref) list" where
  "multimap_insert m e =
     takeWhile (\<lambda>(size, addr). size \<le> fst e) m @ [e] @ dropWhile (\<lambda>(size, addr). size \<le> fst e) m"

definition AllocateInSkippedBlock ::
  "build \<Rightarrow> Mark_fn \<Rightarrow> thread \<Rightarrow> ConcurrentCopying \<Rightarrow> nat \<Rightarrow> fatal + (ref \<times> ConcurrentCopying)" where
  "AllocateInSkippedBlock K Mark self s alloc_size =
    CHECK (alloc_size mod kAlignment K = 0) ''CHECK_ALIGNED(alloc_size, space::RegionSpace::kAlignment)''
    (let min_object_size = RoundUp (sizeof_Object K) (kAlignment K) in
     case lower_bound (skipped_blocks_map s) alloc_size of
       (before, []) \<Rightarrow> Inr (0, s)
     | (before, (byte_size, addr) # after) \<Rightarrow>
        CHECK (byte_size \<ge> alloc_size) ''CHECK_GE(byte_size, alloc_size)''
        (and_then
          (if byte_size > alloc_size \<and> byte_size - alloc_size < min_object_size then
             (case lower_bound (skipped_blocks_map s) (alloc_size + min_object_size) of
                (before2, []) \<Rightarrow> Inr None
              | (before2, (first, second) # after2) \<Rightarrow>
                 CHECK ((first - alloc_size) mod kAlignment K = 0)
                   ''CHECK_ALIGNED(it->first - alloc_size, space::RegionSpace::kAlignment)''
                 (CHECK (first - alloc_size \<ge> min_object_size)
                   ''CHECK_GE(it->first - alloc_size, min_object_size)''
                   (Inr (Some (before2, (first, second), after2)))))
           else Inr (Some (before, (byte_size, addr), after)))
          (\<lambda>found. case found of
             None \<Rightarrow> Inr (0, s)
           | Some (before, (byte_size, addr), after) \<Rightarrow>
              CHECK (byte_size \<ge> alloc_size) ''CHECK_GE(byte_size, alloc_size)''
              (CHECK (region_space_IsInToSpace s addr) ''region_space_->IsInToSpace(addr)''
              (CHECK (byte_size mod kAlignment K = 0)
                 ''CHECK_ALIGNED(byte_size, space::RegionSpace::kAlignment)''
              (let s1 = s\<lparr>skipped_blocks_map := before @ after\<rparr>;
                   s2 = memset0 s1 addr byte_size in
               if byte_size > alloc_size then
                 CHECK ((byte_size - alloc_size) mod kAlignment K = 0)
                   ''CHECK_ALIGNED(byte_size - alloc_size, space::RegionSpace::kAlignment)''
                 (CHECK (byte_size - alloc_size \<ge> min_object_size)
                   ''CHECK_GE(byte_size - alloc_size, min_object_size)''
                 (and_then
                   (FillWithDummyObject K Mark self s2 (addr + alloc_size) (byte_size - alloc_size))
                   (\<lambda>s3.
                     CHECK (region_space_IsInToSpace s3 (addr + alloc_size))
                       ''region_space_->IsInToSpace(addr + alloc_size)''
                       (Inr (addr, s3\<lparr>skipped_blocks_map :=
                                 multimap_insert (skipped_blocks_map s3)
                                   (byte_size - alloc_size, addr + alloc_size)\<rparr>)))))
               else Inr (addr, s2)))))))"

subsection \<open>Copy\<close>

text \<open>
  The two allocators that \<^verbatim>\<open>Copy\<close> calls and whose code is not among the sources:
  \<^verbatim>\<open>region_space_->AllocNonvirtual<true>\<close> and \<^verbatim>\<open>heap_->non_moving_space_->Alloc\<close>. Each
  takes the requested size and returns the block (\<open>0\<close> when it fails) and the number
  of bytes it allocated.
\<close>

record allocators =
  AllocNonvirtual :: "nat \<Rightarrow> ref \<times> nat"
  non_moving_space_Alloc :: "nat \<Rightarrow> ref \<times> nat"

text \<open>The local variables of \<^verbatim>\<open>Copy\<close> that are live in its loop.\<close>

record copy_locals =
  from_ref :: ref
  to_ref :: ref
  obj_size :: nat
  region_space_alloc_size :: nat
  bytes_allocated :: nat
  non_moving_space_bytes_allocated :: nat
  fall_back_to_non_moving :: bool

text \<open>The part of \<^verbatim>\<open>Copy\<close> before the loop (lines 1954-2001): the allocation of the copy.\<close>

definition Copy_allocate ::
  "build \<Rightarrow> Mark_fn \<Rightarrow> allocators \<Rightarrow> thread \<Rightarrow> ConcurrentCopying \<Rightarrow> ref \<Rightarrow>
     fatal + (copy_locals \<times> ConcurrentCopying)" where
  "Copy_allocate K Mark A self s from =
    DCHECK (kIsDebugBuild K) (IsInFromSpace s from) ''region_space_->IsInFromSpace(from_ref)''
    (let obj_size = SizeOf K s from;
         region_space_alloc_size = RoundUp obj_size (kAlignment K);
         (to_ref', allocated) = AllocNonvirtual A region_space_alloc_size;
         region_space_bytes_allocated = (if to_ref' \<noteq> 0 then allocated else 0);
         bytes_allocated = region_space_bytes_allocated
     in DCHECK (kIsDebugBuild K) (to_ref' \<noteq> 0 \<longrightarrow> region_space_alloc_size = region_space_bytes_allocated)
          ''DCHECK_EQ(region_space_alloc_size, region_space_bytes_allocated)''
        (and_then
          (if to_ref' = 0 then
             and_then (AllocateInSkippedBlock K Mark self s region_space_alloc_size)
               (\<lambda>(to_ref', s1).
                 if to_ref' \<noteq> 0 then
                   Inr (\<lparr>from_ref = from, to_ref = to_ref', obj_size = obj_size,
                         region_space_alloc_size = region_space_alloc_size,
                         bytes_allocated = region_space_alloc_size,
                         non_moving_space_bytes_allocated = 0,
                         fall_back_to_non_moving = False\<rparr>,
                        if use_tlab s1
                        then s1\<lparr>region_space_RecordAlloc := region_space_RecordAlloc s1 @ [to_ref']\<rparr>
                        else s1)
                 else
                   (let (to_ref', non_moving_space_bytes_allocated) =
                          non_moving_space_Alloc A obj_size
                    in CHECK (to_ref' \<noteq> 0) ''Fall-back non-moving space allocation failed''
                       (CHECK (has_continuous_space_bitmap s1 to_ref') ''mark_bitmap != nullptr''
                       (CHECK (\<not> mark_bitmap s1 to_ref') ''!mark_bitmap->AtomicTestAndSet(to_ref)''
                         (Inr (\<lparr>from_ref = from, to_ref = to_ref', obj_size = obj_size,
                               region_space_alloc_size = region_space_alloc_size,
                               bytes_allocated = non_moving_space_bytes_allocated,
                               non_moving_space_bytes_allocated = non_moving_space_bytes_allocated,
                               fall_back_to_non_moving = True\<rparr>,
                              s1\<lparr>mark_bitmap := (mark_bitmap s1)(to_ref' := True)\<rparr>))))))
           else
             Inr (\<lparr>from_ref = from, to_ref = to_ref', obj_size = obj_size,
                   region_space_alloc_size = region_space_alloc_size,
                   bytes_allocated = bytes_allocated,
                   non_moving_space_bytes_allocated = 0,
                   fall_back_to_non_moving = False\<rparr>, s))
          (\<lambda>(L, s2). DCHECK (kIsDebugBuild K) (to_ref L \<noteq> 0) ''to_ref != nullptr'' (Inr (L, s2)))))"

text \<open>
  Modelled from the spec: \<^verbatim>\<open>GetFwdPtr\<close> is defined in \<^verbatim>\<open>concurrent_copying-inl.h\<close>. It
  reads the forwarding pointer from the lock word (section 4.E, step 4), null when
  the lock word holds none.
\<close>

definition GetFwdPtr :: "ConcurrentCopying \<Rightarrow> ref \<Rightarrow> ref" where
  "GetFwdPtr s r =
     (let lw = GetLockWord s r
      in if GetState lw = kForwardingAddress then ForwardingAddress lw else 0)"

text \<open>
  The branch of the loop taken when the copied lock word holds a forwarding
  address (lines 2011-2050): \<open>s\<close> is the state after the \<^verbatim>\<open>memcpy\<close>.
\<close>

definition Copy_lost_race ::
  "build \<Rightarrow> Mark_fn \<Rightarrow> thread \<Rightarrow> copy_locals \<Rightarrow> LockWord \<Rightarrow> ConcurrentCopying \<Rightarrow>
     fatal + (ref \<times> ConcurrentCopying)" where
  "Copy_lost_race K Mark self L old_lock_word s =
    and_then (FillWithDummyObject K Mark self s (to_ref L) (bytes_allocated L)) (\<lambda>s1.
    and_then
      (if \<not> fall_back_to_non_moving L then
         DCHECK (kIsDebugBuild K) (region_space_IsInToSpace s1 (to_ref L))
           ''region_space_->IsInToSpace(to_ref)''
          (if bytes_allocated L > kRegionSize K then
             Inr (s1\<lparr>region_space_FreeLarge :=
                       region_space_FreeLarge s1 @ [(to_ref L, bytes_allocated L)]\<rparr>)
           else
             Inr (s1\<lparr>num_bytes_allocated := num_bytes_allocated s1 + of_nat (bytes_allocated L),
                     to_space_bytes_skipped :=
                       to_space_bytes_skipped s1 + of_nat (bytes_allocated L),
                     to_space_objects_skipped := to_space_objects_skipped s1 + 1,
                     skipped_blocks_map :=
                       multimap_insert (skipped_blocks_map s1) (bytes_allocated L, to_ref L)\<rparr>))
       else
         DCHECK (kIsDebugBuild K) (non_moving_space_HasAddress s1 (to_ref L))
           ''heap_->non_moving_space_->HasAddress(to_ref)''
         (DCHECK (kIsDebugBuild K) (bytes_allocated L = non_moving_space_bytes_allocated L)
           ''DCHECK_EQ(bytes_allocated, non_moving_space_bytes_allocated)''
         (CHECK (has_continuous_space_bitmap s1 (to_ref L)) ''mark_bitmap != nullptr''
         (CHECK (mark_bitmap s1 (to_ref L)) ''mark_bitmap->Clear(to_ref)''
           (Inr (s1\<lparr>mark_bitmap := (mark_bitmap s1)(to_ref L := False),
                   non_moving_space_Free := non_moving_space_Free s1 @ [to_ref L]\<rparr>))))))
      (\<lambda>s2.
        let lost_fwd_ptr = to_ref L;
            to_ref = ForwardingAddress old_lock_word
        in CHECK (to_ref \<noteq> 0) ''to_ref != nullptr''
           (CHECK (to_ref \<noteq> lost_fwd_ptr) ''CHECK_NE(to_ref, lost_fwd_ptr)''
           (CHECK (region_space_IsInToSpace s2 to_ref \<or> non_moving_space_HasAddress s2 to_ref)
             ''region_space_->IsInToSpace(to_ref) || heap_->non_moving_space_->HasAddress(to_ref)''
           (CHECK (GetState (GetLockWord s2 to_ref) \<noteq> kForwardingAddress)
             ''CHECK_NE(to_ref->GetLockWord(false).GetState(), LockWord::kForwardingAddress)''
             (Inr (to_ref, s2)))))))"

text \<open>
  What other threads do to the lock word of \<open>from_ref\<close> between this thread's
  \<^verbatim>\<open>memcpy\<close> and its compare-and-set, in one iteration of the loop: nothing, a write
  of another lock word (a hash code or a monitor is installed, or another thread
  installs its forwarding address), or nothing but the weak compare-and-set fails
  all the same.
\<close>

datatype interference = Undisturbed | LockWordWritten LockWord | SpuriousFailure

definition interfere :: "interference \<Rightarrow> ref \<Rightarrow> ConcurrentCopying \<Rightarrow> ConcurrentCopying" where
  "interfere e r s =
     (case e of
        LockWordWritten lw \<Rightarrow> s\<lparr>heap := (heap s)(r := (heap s r)\<lparr>monitor := lw\<rparr>)\<rparr>
      | _ \<Rightarrow> s)"

text \<open>
  The first half of an iteration (lines 2006-2057): the \<^verbatim>\<open>memcpy\<close>, the read of the
  copied lock word, and either the lost-race branch, which returns, or the graying of
  the copy, after which the compare-and-set is due.
\<close>

datatype before_cas =
  Returns "fatal + (ref \<times> ConcurrentCopying)" | AttemptsCas LockWord ConcurrentCopying

definition Copy_before_cas ::
  "build \<Rightarrow> Mark_fn \<Rightarrow> thread \<Rightarrow> copy_locals \<Rightarrow> ConcurrentCopying \<Rightarrow> before_cas" where
  "Copy_before_cas K Mark self L s =
    (let s1 = memcpy s (to_ref L) (from_ref L) (obj_size L);
         old_lock_word = GetLockWord s1 (to_ref L)
     in if GetState old_lock_word = kForwardingAddress
        then Returns (Copy_lost_race K Mark self L old_lock_word s1)
        else AttemptsCas old_lock_word
               (if kUseBakerReadBarrier K then SetReadBarrierPointer s1 (to_ref L) GrayPtr
                else s1))"

text \<open>
  \<^verbatim>\<open>from_ref->CasLockWordWeakSequentiallyConsistent(old_lock_word, new_lock_word)\<close>: whether
  it succeeded, and the state it leaves.
\<close>

definition CasLockWordWeakSequentiallyConsistent ::
  "bool \<Rightarrow> ConcurrentCopying \<Rightarrow> ref \<Rightarrow> LockWord \<Rightarrow> LockWord \<Rightarrow> bool \<times> ConcurrentCopying" where
  "CasLockWordWeakSequentiallyConsistent spurious s obj old_val new_val =
     (if \<not> spurious \<and> GetLockWord s obj = old_val
      then (True, s\<lparr>heap := (heap s)(obj := (heap s obj)\<lparr>monitor := new_val\<rparr>)\<rparr>)
      else (False, s))"

text \<open>
  The second half of an iteration (lines 2057-2081): the compare-and-set and, when it
  succeeds, the counters and the push. \<open>None\<close> when the compare-and-set failed and the
  loop goes round again.
\<close>

definition Copy_cas ::
  "build \<Rightarrow> thread \<Rightarrow> copy_locals \<Rightarrow> bool \<Rightarrow> LockWord \<Rightarrow> ConcurrentCopying \<Rightarrow>
     (fatal + (ref \<times> ConcurrentCopying)) option \<times> ConcurrentCopying" where
  "Copy_cas K self L spurious old_lock_word s =
    (let new_lock_word = FromForwardingAddress (to_ref L);
         (success, s1) =
           CasLockWordWeakSequentiallyConsistent spurious s (from_ref L) old_lock_word new_lock_word
     in if success then
          (let s2 = s1\<lparr>objects_moved := objects_moved s1 + 1\<rparr>;
               s3 = s2\<lparr>bytes_moved := bytes_moved s2 + of_nat (region_space_alloc_size L)\<rparr>
           in (Some
                (DCHECK (kIsDebugBuild K)
                   (if \<not> fall_back_to_non_moving L then region_space_IsInToSpace s3 (to_ref L)
                    else non_moving_space_HasAddress s3 (to_ref L) \<and>
                         bytes_allocated L = non_moving_space_bytes_allocated L)
                   ''region_space_->IsInToSpace(to_ref) / heap_->non_moving_space_->HasAddress(to_ref)''
                (DCHECK (kIsDebugBuild K)
                   (kUseBakerReadBarrier K \<longrightarrow> GetReadBarrierPointer s3 (to_ref L) = GrayPtr)
                   ''to_ref->GetReadBarrierPointer() == ReadBarrier::GrayPtr()''
                (DCHECK (kIsDebugBuild K) (GetFwdPtr s3 (from_ref L) = to_ref L)
                   ''GetFwdPtr(from_ref) == to_ref''
                (CHECK (GetState (GetLockWord s3 (to_ref L)) \<noteq> kForwardingAddress)
                   ''CHECK_NE(to_ref->GetLockWord(false).GetState(), LockWord::kForwardingAddress)''
                (and_then (PushOntoMarkStack K self s3 (to_ref L))
                   (\<lambda>s4. Inr (to_ref L, s4))))))), s3))
        else (None, s1))"

text \<open>
  The loop. The list gives the interference of each iteration, one entry for each;
  once the list is used up the thread runs undisturbed. An undisturbed iteration
  whose compare-and-set fails leaves the state as it found it, so that every later
  iteration fails in the same way.
\<close>

fun Copy_loop ::
  "build \<Rightarrow> Mark_fn \<Rightarrow> thread \<Rightarrow> copy_locals \<Rightarrow> interference list \<Rightarrow> ConcurrentCopying \<Rightarrow>
     fatal + (ref \<times> ConcurrentCopying)" where
  "Copy_loop K Mark self L [] s =
     (case Copy_before_cas K Mark self L s of
        Returns r \<Rightarrow> r
      | AttemptsCas old_lock_word s1 \<Rightarrow>
         (case Copy_cas K self L False old_lock_word s1 of
            (Some r, s2) \<Rightarrow> r
          | (None, s2) \<Rightarrow> Inl LoopsForever))"
| "Copy_loop K Mark self L (e # es) s =
     (case Copy_before_cas K Mark self L s of
        Returns r \<Rightarrow> r
      | AttemptsCas old_lock_word s1 \<Rightarrow>
         (case Copy_cas K self L (e = SpuriousFailure) old_lock_word (interfere e (from_ref L) s1) of
            (Some r, s2) \<Rightarrow> r
          | (None, s2) \<Rightarrow> Copy_loop K Mark self L es s2))"

definition Copy ::
  "build \<Rightarrow> Mark_fn \<Rightarrow> allocators \<Rightarrow> interference list \<Rightarrow> thread \<Rightarrow> ConcurrentCopying \<Rightarrow> ref \<Rightarrow>
     fatal + (ref \<times> ConcurrentCopying)" where
  "Copy K Mark A sched self s from =
     and_then (Copy_allocate K Mark A self s from) (\<lambda>(L, s1). Copy_loop K Mark self L sched s1)"

subsection \<open>ReclaimPhase: the block that records the freed objects\<close>

text \<open>
  The four counters the block reads from the region space, each a \<^verbatim>\<open>uint64_t\<close>.
\<close>

record region_space_counters =
  GetBytesAllocatedInFromSpace :: "64 word"
  GetObjectsAllocatedInFromSpace :: "64 word"
  GetBytesAllocatedInUnevacFromSpace :: "64 word"
  GetObjectsAllocatedInUnevacFromSpace :: "64 word"

text \<open>
  \<^verbatim>\<open>ObjectBytePair(freed_objects, freed_bytes)\<close>, the argument of \<^verbatim>\<open>RecordFree\<close>:
  the object count is unsigned, the byte count is an \<^verbatim>\<open>int64_t\<close> (read it with \<open>sint\<close>).
\<close>

record ObjectBytePair =
  objects :: "64 word"
  bytes :: "64 word"

text \<open>
  Lines 1472-1505 of \<^verbatim>\<open>ReclaimPhase\<close>. The result is the pair handed to \<^verbatim>\<open>RecordFree\<close>.
\<close>

definition ReclaimPhase_RecordFree ::
  "build \<Rightarrow> region_space_counters \<Rightarrow> ConcurrentCopying \<Rightarrow> fatal + ObjectBytePair" where
  "ReclaimPhase_RecordFree K region_space s =
    (let from_bytes = GetBytesAllocatedInFromSpace region_space;
         from_objects = GetObjectsAllocatedInFromSpace region_space;
         unevac_from_bytes = GetBytesAllocatedInUnevacFromSpace region_space;
         unevac_from_objects = GetObjectsAllocatedInUnevacFromSpace region_space;
         to_bytes = bytes_moved s;
         to_objects = objects_moved s
     in CHECK (kEnableFromSpaceAccountingCheck K \<longrightarrow>
               from_space_num_objects_at_first_pause s = from_objects + unevac_from_objects)
          ''CHECK_EQ(from_space_num_objects_at_first_pause_, from_objects + unevac_from_objects)''
       (CHECK (kEnableFromSpaceAccountingCheck K \<longrightarrow>
               from_space_num_bytes_at_first_pause s = from_bytes + unevac_from_bytes)
          ''CHECK_EQ(from_space_num_bytes_at_first_pause_, from_bytes + unevac_from_bytes)''
       (CHECK (to_objects \<le> from_objects) ''CHECK_LE(to_objects, from_objects)''
       (CHECK (to_bytes \<le> from_bytes) ''CHECK_LE(to_bytes, from_bytes)''
       (let freed_bytes = from_bytes - to_bytes;
            freed_objects = from_objects - to_objects
        in Inr \<lparr>objects = freed_objects, bytes = freed_bytes\<rparr>)))))"

subsection \<open>Concrete states for the examples\<close>

definition build0 :: build where
  "build0 = \<lparr>kUseBakerReadBarrier = True, USE_BAKER_OR_BROOKS_READ_BARRIER = True,
     kIsDebugBuild = True, kEnableToSpaceInvariantChecks = True,
     kEnableFromSpaceAccountingCheck = True,
     kObjectAlignment = 8, kAlignment = 8, kRegionSize = 1048576,
     sizeof_Object = 8, sizeof_int32_t = 4, DataOffset = (\<lambda>component_size. 12),
     kMarkStackPoolSize = 256\<rparr>"

text \<open>
  A heap with the int array class at address 16 and \<^verbatim>\<open>java.lang.Object\<close> at address
  24, both in an immune space, and no other object. The collector thread is thread 1.
\<close>

definition classes0 :: "ref \<Rightarrow> Class" where
  "classes0 c =
     (if c = 16 then \<lparr>IsTypeOfReferenceClass = False, IsArrayClass = True,
                      GetComponentSize = 4, GetObjectSize = 0\<rparr>
      else \<lparr>IsTypeOfReferenceClass = False, IsArrayClass = False,
            GetComponentSize = 0, GetObjectSize = 8\<rparr>)"

definition state0 :: ConcurrentCopying where
  "state0 = \<lparr>thread_running_gc = Some 1, is_marking = True,
     is_asserting_to_space_invariant = True, gc_grays_immune_objects = False,
     updated_all_immune_objects = True, is_mark_stack_push_disallowed = 0,
     mark_stack_mode = kMarkStackModeGcExclusive,
     gc_mark_stack = \<lparr>entries = [], Capacity = 4\<rparr>,
     pooled_mark_stacks = [], revoked_mark_stacks = [], false_gray_stack = [],
     skipped_blocks_map = [], bytes_moved = 0, objects_moved = 0,
     to_space_bytes_skipped = 0, to_space_objects_skipped = 0,
     from_space_num_objects_at_first_pause = 0, from_space_num_bytes_at_first_pause = 0,
     heap = (\<lambda>r. zeroed), classes = classes0,
     GetRegionType = (\<lambda>r. kRegionTypeNone), region_space_bitmap = (\<lambda>r. False),
     region_space_AddLiveBytes = [],
     immune_spaces_ContainsObject = (\<lambda>r. r = 16 \<or> r = 24),
     non_moving_space_HasAddress = (\<lambda>r. False),
     has_continuous_space_bitmap = (\<lambda>r. False), mark_bitmap = (\<lambda>r. False),
     has_large_object_bitmap = (\<lambda>r. True), los_bitmap = (\<lambda>r. False),
     allocation_stack = [], num_bytes_allocated = 0, use_tlab = False,
     collector_type = kCollectorTypeCC, IntArray_GetArrayClass = 16, java_lang_Object = 24,
     thread_local_mark_stack = (\<lambda>t. None), weak_ref_access_enabled = (\<lambda>t. True),
     thread_list = [1], region_space_FreeLarge = [], region_space_RecordAlloc = [],
     non_moving_space_Free = [], root_slots = (\<lambda>a. 0)\<rparr>"

text \<open>A \<^verbatim>\<open>Mark\<close> that returns its argument: what \<^verbatim>\<open>Mark\<close> does for an immune object.\<close>

definition Mark_immune :: Mark_fn where
  "Mark_immune kGrayImmuneObject self r s = Inr (r, s)"

text \<open>
  A heap with one object of class \<^verbatim>\<open>java.lang.Object\<close> at address 1000 in the
  from-space, a to-space from 2000 to 3000 and a non-moving space from 5000 to 6000.
\<close>

definition state1 :: ConcurrentCopying where
  "state1 = state0\<lparr>
     heap := (\<lambda>r. zeroed)(1000 := zeroed\<lparr>klass := 24\<rparr>),
     GetRegionType := (\<lambda>r. if r = 1000 then kRegionTypeFromSpace
                            else if 2000 \<le> r \<and> r < 3000 then kRegionTypeToSpace
                            else kRegionTypeNone),
     non_moving_space_HasAddress := (\<lambda>r. 5000 \<le> r \<and> r < 6000),
     has_continuous_space_bitmap := (\<lambda>r. 5000 \<le> r \<and> r < 6000)\<rparr>"

text \<open>
  Allocators: the region space has room at 2000; the region space is full and the
  non-moving space has room at 5000; both are full.
\<close>

definition A_region :: allocators where
  "A_region = \<lparr>AllocNonvirtual = (\<lambda>n. (2000, n)), non_moving_space_Alloc = (\<lambda>n. (5000, n))\<rparr>"

definition A_non_moving :: allocators where
  "A_non_moving = \<lparr>AllocNonvirtual = (\<lambda>n. (0, 0)), non_moving_space_Alloc = (\<lambda>n. (5000, n))\<rparr>"

definition A_none :: allocators where
  "A_none = \<lparr>AllocNonvirtual = (\<lambda>n. (0, 0)), non_moving_space_Alloc = (\<lambda>n. (0, 0))\<rparr>"

subsection \<open>Auxiliary notions for the properties of Copy\<close>

text \<open>
  \<open>r\<close> is the entry pushed last on the mark stack that \<^verbatim>\<open>PushOntoMarkStack\<close> uses: the
  collector's stack, or the thread-local stack of the calling thread.
\<close>

definition is_last_pushed :: "thread \<Rightarrow> ConcurrentCopying \<Rightarrow> ref \<Rightarrow> bool" where
  "is_last_pushed self s r =
     ((entries (gc_mark_stack s) \<noteq> [] \<and> last (entries (gc_mark_stack s)) = r) \<or>
      (\<exists>st. thread_local_mark_stack s self = Some st \<and> entries st \<noteq> [] \<and>
            last (entries st) = r))"

text \<open>The state right after a successful compare-and-set and the two counter updates.\<close>

definition cas_installed :: "copy_locals \<Rightarrow> ConcurrentCopying \<Rightarrow> ConcurrentCopying" where
  "cas_installed L s =
     s\<lparr>heap := (heap s)(from_ref L :=
                  (heap s (from_ref L))\<lparr>monitor := FromForwardingAddress (to_ref L)\<rparr>),
       objects_moved := objects_moved s + 1,
       bytes_moved := bytes_moved s + of_nat (region_space_alloc_size L)\<rparr>"

text \<open>
  What the loop has done when it returns the thread's own copy: the heap, the two
  counters and the mark stacks changed and nothing else; the forwarding address is in
  place, the copy is gray (Baker) and pushed.
\<close>

definition won :: "thread \<Rightarrow> build \<Rightarrow> copy_locals \<Rightarrow> ConcurrentCopying \<Rightarrow> ConcurrentCopying \<Rightarrow> bool" where
  "won self K L s s' =
     ((\<exists>h a b c d.
         s' = s\<lparr>heap := h, objects_moved := objects_moved s + 1,
                bytes_moved := bytes_moved s + of_nat (region_space_alloc_size L),
                gc_mark_stack := a, pooled_mark_stacks := b, revoked_mark_stacks := c,
                thread_local_mark_stack := d\<rparr>) \<and>
      GetLockWord s' (from_ref L) = FromForwardingAddress (to_ref L) \<and>
      (kUseBakerReadBarrier K \<longrightarrow> GetReadBarrierPointer s' (to_ref L) = GrayPtr) \<and>
      is_last_pushed self s' (to_ref L))"

text \<open>The locals of a \<^verbatim>\<open>Copy\<close> of the object at 1000 into the block at 2000.\<close>

definition L0 :: copy_locals where
  "L0 = \<lparr>from_ref = 1000, to_ref = 2000, obj_size = 8, region_space_alloc_size = 8,
          bytes_allocated = 8, non_moving_space_bytes_allocated = 0,
          fall_back_to_non_moving = False\<rparr>"

subsection \<open>Copy: several callers racing on one object\<close>

text \<open>
  Several threads run the loop of \<open>Copy\<close> on the same from-space object \<open>f\<close>, each
  with the to-space block it allocated.  A caller is before the \<open>memcpy\<close> of an
  iteration, between the read of the lock word and its CAS, or has returned: from a
  successful CAS (it has won, and has counted the object as moved) or from the lost-race
  branch.  One step is one caller running the code between two accesses of the shared lock
  word; the lock word may also be written by a mutator (a lock or a hash code, never a
  forwarding address).
\<close>

datatype caller = Running copy_locals | AtCas copy_locals LockWord | Won ref | Lost ref

inductive race_step ::
  "build \<Rightarrow> Mark_fn \<Rightarrow> ref \<Rightarrow> (thread \<Rightarrow> caller option) \<times> ConcurrentCopying \<Rightarrow>
     (thread \<Rightarrow> caller option) \<times> ConcurrentCopying \<Rightarrow> bool"
  for K :: build and Mark :: Mark_fn and f :: ref where
  loses:
    "T t = Some (Running L) \<Longrightarrow> Copy_before_cas K Mark t L s = Returns (Inr (r, s')) \<Longrightarrow>
     race_step K Mark f (T, s) (T(t := Some (Lost r)), s')"
| attempts:
    "T t = Some (Running L) \<Longrightarrow> Copy_before_cas K Mark t L s = AttemptsCas old s1 \<Longrightarrow>
     race_step K Mark f (T, s) (T(t := Some (AtCas L old)), s1)"
| wins:
    "T t = Some (AtCas L old) \<Longrightarrow>
     Copy_cas K t L spurious old s = (Some (Inr (r, s')), s3) \<Longrightarrow>
     race_step K Mark f (T, s) (T(t := Some (Won r)), s')"
| retries:
    "T t = Some (AtCas L old) \<Longrightarrow> Copy_cas K t L spurious old s = (None, s1) \<Longrightarrow>
     race_step K Mark f (T, s) (T(t := Some (Running L)), s1)"
| lock_word_written:
    "GetState (GetLockWord s f) \<noteq> kForwardingAddress \<Longrightarrow> GetState lw \<noteq> kForwardingAddress \<Longrightarrow>
     race_step K Mark f (T, s) (T, s\<lparr>heap := (heap s)(f := (heap s f)\<lparr>monitor := lw\<rparr>)\<rparr>)"

text \<open>At the start nobody has installed a forwarding address and every caller is at the
  top of the loop, with a block of its own.\<close>

definition race_start :: "ref \<Rightarrow> (thread \<Rightarrow> caller option) \<Rightarrow> ConcurrentCopying \<Rightarrow> bool" where
  "race_start f T s =
     (GetState (GetLockWord s f) \<noteq> kForwardingAddress \<and>
      (\<forall>t c. T t = Some c \<longrightarrow>
         (\<exists>L. c = Running L \<and> from_ref L = f \<and> to_ref L \<noteq> f \<and> obj_size L \<noteq> 0)))"

text \<open>
  What the race needs from the \<open>Mark\<close> that \<open>FillWithDummyObject\<close> calls on the int array
  class: it does not touch the lock word of an object that holds a forwarding address.
  \<open>Mark\<close> may copy other objects, count them as moved and push them.
\<close>

definition Mark_keeps_forwarding_address :: "Mark_fn \<Rightarrow> ref \<Rightarrow> bool" where
  "Mark_keeps_forwarding_address Mark f =
     (\<forall>g t r s r' s'.
        Mark g t r s = Inr (r', s') \<and> GetState (GetLockWord s f) = kForwardingAddress \<longrightarrow>
        GetLockWord s' f = GetLockWord s f)"

text \<open>The invariant of the race: a caller has returned only when the forwarding address is
  installed, and then it returned that address; the forwarding address is installed only
  when a caller has won, and no two callers have.\<close>

definition race_inv ::
  "ref \<Rightarrow> (thread \<Rightarrow> caller option) \<Rightarrow> ConcurrentCopying \<Rightarrow> bool" where
  "race_inv f T s =
     ((GetState (GetLockWord s f) \<noteq> kForwardingAddress \<longrightarrow>
         (\<forall>t r. T t \<noteq> Some (Won r) \<and> T t \<noteq> Some (Lost r))) \<and>
      (GetState (GetLockWord s f) = kForwardingAddress \<longrightarrow> (\<exists>w r. T w = Some (Won r))) \<and>
      (\<forall>t r. T t = Some (Won r) \<or> T t = Some (Lost r) \<longrightarrow>
          GetLockWord s f = FromForwardingAddress r) \<and>
      (\<forall>t t' r r'. T t = Some (Won r) \<and> T t' = Some (Won r') \<longrightarrow> t = t') \<and>
      (\<forall>t L. T t = Some (Running L) \<longrightarrow> from_ref L = f \<and> to_ref L \<noteq> f \<and> obj_size L \<noteq> 0) \<and>
      (\<forall>t L old. T t = Some (AtCas L old) \<longrightarrow>
          from_ref L = f \<and> to_ref L \<noteq> f \<and> obj_size L \<noteq> 0 \<and>
          GetState old \<noteq> kForwardingAddress))"

text \<open>The state after the loser of the race has given its block back: into the
  skipped-blocks map, to the region space (a large block), or to the non-moving space.
  It is used in the proofs only.\<close>

definition recycled :: "build \<Rightarrow> copy_locals \<Rightarrow> ConcurrentCopying \<Rightarrow> ConcurrentCopying" where
  "recycled K L s1 =
     (if \<not> fall_back_to_non_moving L then
        (if bytes_allocated L > kRegionSize K then
           s1\<lparr>region_space_FreeLarge :=
                 region_space_FreeLarge s1 @ [(to_ref L, bytes_allocated L)]\<rparr>
         else
           s1\<lparr>num_bytes_allocated := num_bytes_allocated s1 + of_nat (bytes_allocated L),
               to_space_bytes_skipped := to_space_bytes_skipped s1 + of_nat (bytes_allocated L),
               to_space_objects_skipped := to_space_objects_skipped s1 + 1,
               skipped_blocks_map :=
                 multimap_insert (skipped_blocks_map s1) (bytes_allocated L, to_ref L)\<rparr>)
      else
        s1\<lparr>mark_bitmap := (mark_bitmap s1)(to_ref L := False),
            non_moving_space_Free := non_moving_space_Free s1 @ [to_ref L]\<rparr>)"

text \<open>
  For the example of a race. A \<open>Mark\<close> that copies: on a from-space object that holds no
  forwarding address it runs \<open>Copy\<close>, with an allocator that hands out the block at 2048;
  on a from-space object that holds a forwarding address it returns that address; any
  other reference it returns as it is.
\<close>

definition A_class :: allocators where
  "A_class = \<lparr>AllocNonvirtual = (\<lambda>n. (2048, n)), non_moving_space_Alloc = (\<lambda>n. (0, 0))\<rparr>"

definition Mark_by_Copy :: Mark_fn where
  "Mark_by_Copy kGrayImmuneObject self r s =
     (if r \<noteq> 0 \<and> IsInFromSpace s r then
        (if GetState (GetLockWord s r) = kForwardingAddress
         then Inr (ForwardingAddress (GetLockWord s r), s)
         else Copy build0 Mark_immune A_class [] self s r)
      else Inr (r, s))"

text \<open>
  A heap in which the int array class itself is a from-space object, at 1016, not yet
  copied; the object at 1000 has 16 bytes; the mark stack is shared. Two callers race on
  the object at 1000, with the blocks at 2000 and at 2016.
\<close>

definition classes1 :: "ref \<Rightarrow> Class" where
  "classes1 c =
     (if c = 16 \<or> c = 1016 \<or> c = 2048
      then \<lparr>IsTypeOfReferenceClass = False, IsArrayClass = True,
            GetComponentSize = 4, GetObjectSize = 0\<rparr>
      else if c = 40
      then \<lparr>IsTypeOfReferenceClass = False, IsArrayClass = False,
            GetComponentSize = 0, GetObjectSize = 16\<rparr>
      else \<lparr>IsTypeOfReferenceClass = False, IsArrayClass = False,
            GetComponentSize = 0, GetObjectSize = 8\<rparr>)"

definition state4 :: ConcurrentCopying where
  "state4 = state1\<lparr>
     mark_stack_mode := kMarkStackModeShared,
     heap := (\<lambda>r. zeroed)(1000 := zeroed\<lparr>klass := 40\<rparr>, 1016 := zeroed\<lparr>klass := 24\<rparr>),
     classes := classes1,
     GetRegionType := (\<lambda>r. if r = 1000 \<or> r = 1016 then kRegionTypeFromSpace
                            else if 2000 \<le> r \<and> r < 3000 then kRegionTypeToSpace
                            else kRegionTypeNone),
     IntArray_GetArrayClass := 1016\<rparr>"

definition L4 :: copy_locals where
  "L4 = \<lparr>from_ref = 1000, to_ref = 2000, obj_size = 16, region_space_alloc_size = 16,
          bytes_allocated = 16, non_moving_space_bytes_allocated = 0,
          fall_back_to_non_moving = False\<rparr>"

definition L5 :: copy_locals where
  "L5 = L4\<lparr>to_ref := 2016\<rparr>"

definition racers :: "thread \<Rightarrow> caller option" where
  "racers t = (if t = 1 then Some (Running L4) else if t = 2 then Some (Running L5) else None)"

definition state4_attempted :: ConcurrentCopying where
  "state4_attempted = SetReadBarrierPointer (memcpy state4 2000 1000 16) 2000 GrayPtr"

definition state4_won :: ConcurrentCopying where
  "state4_won = (cas_installed L4 state4_attempted)
                  \<lparr>gc_mark_stack := \<lparr>entries = [2000], Capacity = 4\<rparr>\<rparr>"

subsection \<open>Reference slots: Process, MarkRoot, VisitRoots\<close>

text \<open>
  The address of a slot that holds a reference: a reference field of an object, by its
  offset; a native root of an object (a \<^verbatim>\<open>CompressedReference\<close> that \<^verbatim>\<open>VisitReferences\<close> hands
  to \<^verbatim>\<open>VisitRoot\<close>); a root outside the heap. Offsets and indices come from
  \<^verbatim>\<open>VisitReferences\<close> and are those of existing fields (\<open>slot_exists\<close>).
\<close>

datatype slot = FieldSlot ref nat | NativeRootSlot ref nat | RootSlot nat

fun slot_exists :: "ConcurrentCopying \<Rightarrow> slot \<Rightarrow> bool" where
  "slot_exists s (FieldSlot obj offset) = (offset < length (ref_fields (heap s obj)))"
| "slot_exists s (NativeRootSlot obj i) = (i < length (native_roots (heap s obj)))"
| "slot_exists s (RootSlot a) = True"

fun LoadRelaxed :: "ConcurrentCopying \<Rightarrow> slot \<Rightarrow> ref" where
  "LoadRelaxed s (FieldSlot obj offset) = ref_fields (heap s obj) ! offset"
| "LoadRelaxed s (NativeRootSlot obj i) = native_roots (heap s obj) ! i"
| "LoadRelaxed s (RootSlot a) = root_slots s a"

fun StoreRelaxed :: "ConcurrentCopying \<Rightarrow> slot \<Rightarrow> ref \<Rightarrow> ConcurrentCopying" where
  "StoreRelaxed s (FieldSlot obj offset) v =
     s\<lparr>heap := (heap s)(obj := (heap s obj)\<lparr>ref_fields := (ref_fields (heap s obj))[offset := v]\<rparr>)\<rparr>"
| "StoreRelaxed s (NativeRootSlot obj i) v =
     s\<lparr>heap := (heap s)(obj := (heap s obj)\<lparr>native_roots := (native_roots (heap s obj))[i := v]\<rparr>)\<rparr>"
| "StoreRelaxed s (RootSlot a) v = s\<lparr>root_slots := (root_slots s)(a := v)\<rparr>"

text \<open>
  The weak compare-and-set of a slot (\<^verbatim>\<open>CasFieldWeakRelaxedObjectWithoutWriteBarrier\<close>,
  \<^verbatim>\<open>CompareExchangeWeakRelaxed\<close>): it may fail although the slot holds the expected value.
\<close>

definition CompareExchangeWeakRelaxed ::
  "bool \<Rightarrow> ConcurrentCopying \<Rightarrow> slot \<Rightarrow> ref \<Rightarrow> ref \<Rightarrow> bool \<times> ConcurrentCopying" where
  "CompareExchangeWeakRelaxed spurious s sl expected_value desired_value =
     (if \<not> spurious \<and> LoadRelaxed s sl = expected_value
      then (True, StoreRelaxed s sl desired_value)
      else (False, s))"

text \<open>
  What the mutators do to the slot during one iteration of the collector's loop: nothing;
  a store before the collector loads the slot (during \<^verbatim>\<open>Mark\<close>, for the first iteration);
  a store between the load and the compare-and-set; nothing, but the weak compare-and-set
  fails all the same.
\<close>

datatype mutator = NoStore | StoresBeforeLoad ref | StoresBeforeCas ref | CasFailsSpuriously

definition before_load :: "mutator \<Rightarrow> slot \<Rightarrow> ConcurrentCopying \<Rightarrow> ConcurrentCopying" where
  "before_load e sl s = (case e of StoresBeforeLoad v \<Rightarrow> StoreRelaxed s sl v | _ \<Rightarrow> s)"

definition before_cas :: "mutator \<Rightarrow> slot \<Rightarrow> ConcurrentCopying \<Rightarrow> ConcurrentCopying" where
  "before_cas e sl s = (case e of StoresBeforeCas v \<Rightarrow> StoreRelaxed s sl v | _ \<Rightarrow> s)"

text \<open>
  The loop \<^verbatim>\<open>do { if (expected_ref != load) break; } while (!cas(expected_ref, new_ref))\<close>,
  which is the same text in \<^verbatim>\<open>Process\<close>, \<^verbatim>\<open>VisitRoots\<close> and \<^verbatim>\<open>MarkRoot\<close>, on the three kinds
  of slot. The list gives what the mutators do in each iteration; once it is used up the
  collector runs undisturbed.
\<close>

fun update_slot ::
  "slot \<Rightarrow> ref \<Rightarrow> ref \<Rightarrow> mutator list \<Rightarrow> ConcurrentCopying \<Rightarrow> fatal + ConcurrentCopying" where
  "update_slot sl expected_ref new_ref [] s =
     (if expected_ref \<noteq> LoadRelaxed s sl then Inr s
      else (case CompareExchangeWeakRelaxed False s sl expected_ref new_ref of
              (True, s1) \<Rightarrow> Inr s1
            | (False, s1) \<Rightarrow> Inl LoopsForever))"
| "update_slot sl expected_ref new_ref (e # es) s =
     (let s0 = before_load e sl s
      in if expected_ref \<noteq> LoadRelaxed s0 sl then Inr s0
         else (case CompareExchangeWeakRelaxed (e = CasFailsSpuriously) (before_cas e sl s0) sl
                      expected_ref new_ref of
                 (True, s1) \<Rightarrow> Inr s1
               | (False, s1) \<Rightarrow> update_slot sl expected_ref new_ref es s1))"

text \<open>
  \<^verbatim>\<open>Process\<close>, \<^verbatim>\<open>MarkRoot\<close> and \<^verbatim>\<open>VisitRoots\<close>. \<open>mut\<close> gives, for each slot, what the mutators do
  to it while the collector works on it.
\<close>

definition Process ::
  "build \<Rightarrow> Mark_fn \<Rightarrow> (slot \<Rightarrow> mutator list) \<Rightarrow> thread \<Rightarrow> ConcurrentCopying \<Rightarrow> ref \<Rightarrow> nat \<Rightarrow>
     fatal + ConcurrentCopying" where
  "Process K Mark mut self s obj offset =
     DCHECK (kIsDebugBuild K) (Some self = thread_running_gc s)
       ''DCHECK_EQ(Thread::Current(), thread_running_gc_)''
      (let ref = LoadRelaxed s (FieldSlot obj offset)
       in and_then (Mark False self ref s) (\<lambda>(to_ref, s1).
            if to_ref = ref then Inr s1
            else update_slot (FieldSlot obj offset) ref to_ref (mut (FieldSlot obj offset)) s1))"

definition MarkRoot ::
  "build \<Rightarrow> Mark_fn \<Rightarrow> bool \<Rightarrow> (slot \<Rightarrow> mutator list) \<Rightarrow> thread \<Rightarrow> ConcurrentCopying \<Rightarrow> slot \<Rightarrow>
     fatal + ConcurrentCopying" where
  "MarkRoot K Mark kGrayImmuneObject mut self s root =
     DCHECK (kIsDebugBuild K) (LoadRelaxed s root \<noteq> 0) ''!root->IsNull()''
      (let ref = LoadRelaxed s root
       in and_then (Mark kGrayImmuneObject self ref s) (\<lambda>(to_ref, s1).
            if to_ref \<noteq> ref then update_slot root ref to_ref (mut root) s1
            else Inr s1))"

text \<open>A \<^verbatim>\<open>for\<close> loop over a list, stopping at the first failure.\<close>

primrec for_each :: "'a list \<Rightarrow> ('a \<Rightarrow> 's \<Rightarrow> fatal + 's) \<Rightarrow> 's \<Rightarrow> fatal + 's" where
  "for_each [] body s = Inr s"
| "for_each (x # xs) body s = and_then (body x s) (for_each xs body)"

definition VisitRoots ::
  "build \<Rightarrow> Mark_fn \<Rightarrow> (slot \<Rightarrow> mutator list) \<Rightarrow> thread \<Rightarrow> ConcurrentCopying \<Rightarrow> nat list \<Rightarrow> nat \<Rightarrow>
     fatal + ConcurrentCopying" where
  "VisitRoots K Mark mut self s roots count =
     for_each (take count roots)
       (\<lambda>root s.
          let ref = LoadRelaxed s (RootSlot root)
          in and_then (Mark True self ref s) (\<lambda>(to_ref, s1).
               if to_ref = ref then Inr s1
               else update_slot (RootSlot root) ref to_ref (mut (RootSlot root)) s1))
       s"

subsection \<open>Scan\<close>

text \<open>
  What \<^verbatim>\<open>concurrent_copying.cc\<close> calls and is not among the sources, besides \<^verbatim>\<open>Mark\<close>: the
  collector's own \<^verbatim>\<open>IsInToSpace\<close> (\<^verbatim>\<open>concurrent_copying.h\<close>) and the reference processor's
  \<^verbatim>\<open>DelayReferenceReferent\<close>.
\<close>

record runtime =
  IsInToSpace :: "ConcurrentCopying \<Rightarrow> ref \<Rightarrow> bool"
  DelayReferenceReferent :: "ref \<Rightarrow> ref \<Rightarrow> ConcurrentCopying \<Rightarrow> fatal + ConcurrentCopying"

text \<open>
  Modelled from the spec: \<^verbatim>\<open>Object::VisitReferences\<close> (\<^verbatim>\<open>object-inl.h\<close>) is not among the
  sources. Section 2 gives an object an enumerable set of outgoing reference fields. The
  field visitor is called on each reference field, the reference visitor on an object whose
  class is a reference class, and \<^verbatim>\<open>VisitRootIfNonNull\<close> on each native root.
\<close>

definition VisitReferences ::
  "ref \<Rightarrow> (nat \<Rightarrow> ConcurrentCopying \<Rightarrow> fatal + ConcurrentCopying) \<Rightarrow>
     (ref \<Rightarrow> ConcurrentCopying \<Rightarrow> fatal + ConcurrentCopying) \<Rightarrow>
     (nat \<Rightarrow> ConcurrentCopying \<Rightarrow> fatal + ConcurrentCopying) \<Rightarrow>
     ConcurrentCopying \<Rightarrow> fatal + ConcurrentCopying" where
  "VisitReferences obj field_visitor reference_visitor VisitRootIfNonNull s =
     and_then (for_each [0 ..< length (ref_fields (heap s obj))] field_visitor s) (\<lambda>s1.
     and_then (if IsTypeOfReferenceClass (classes s1 (klass (heap s1 obj)))
               then reference_visitor (klass (heap s1 obj)) s1 else Inr s1) (\<lambda>s2.
       for_each [0 ..< length (native_roots (heap s2 obj))] VisitRootIfNonNull s2))"

text \<open>
  \<^verbatim>\<open>Scan\<close> with \<^verbatim>\<open>RefFieldsVisitor\<close>. The debug counter of \<^verbatim>\<open>kDisallowReadBarrierDuringScan\<close>
  belongs to the thread and is left out.
\<close>

definition Scan ::
  "build \<Rightarrow> Mark_fn \<Rightarrow> runtime \<Rightarrow> (slot \<Rightarrow> mutator list) \<Rightarrow> thread \<Rightarrow> ConcurrentCopying \<Rightarrow> ref \<Rightarrow>
     fatal + ConcurrentCopying" where
  "Scan K Mark R mut self s to_ref' =
     DCHECK (kIsDebugBuild K) (\<not> IsInFromSpace s to_ref') ''!region_space_->IsInFromSpace(to_ref)''
     (DCHECK (kIsDebugBuild K) (Some self = thread_running_gc s)
        ''DCHECK_EQ(Thread::Current(), thread_running_gc_)''
       (VisitReferences to_ref'
          (\<lambda>offset s. Process K Mark mut self s to_ref' offset)
          (\<lambda>klass s. CHECK (IsTypeOfReferenceClass (classes s klass))
                       ''klass->IsTypeOfReferenceClass()''
                       (DelayReferenceReferent R klass to_ref' s))
          (\<lambda>i s. if LoadRelaxed s (NativeRootSlot to_ref' i) \<noteq> 0
                 then MarkRoot K Mark False mut self s (NativeRootSlot to_ref' i)
                 else Inr s)
          s))"

subsection \<open>ProcessMarkStackRef\<close>

text \<open>
  \<^verbatim>\<open>AssertToSpaceInvariantObjectVisitor\<close> with its field visitor and its reference visitor:
  it checks and changes nothing.
\<close>

definition AssertToSpaceInvariantRefsVisitor ::
  "build \<Rightarrow> thread \<Rightarrow> ref \<Rightarrow> ConcurrentCopying \<Rightarrow> fatal + ConcurrentCopying" where
  "AssertToSpaceInvariantRefsVisitor K self r s =
     (if r = 0 then Inr s
      else and_then (AssertToSpaceInvariant K self s 0 0 r) (\<lambda>_. Inr s))"

definition AssertToSpaceInvariantObjectVisitor ::
  "build \<Rightarrow> thread \<Rightarrow> ConcurrentCopying \<Rightarrow> ref \<Rightarrow> fatal + ConcurrentCopying" where
  "AssertToSpaceInvariantObjectVisitor K self s obj =
     CHECK (obj \<noteq> 0) ''obj != nullptr''
     (CHECK (\<not> IsInFromSpace s obj) ''Scanning object in from space''
     (and_then (AssertToSpaceInvariant K self s 0 0 obj) (\<lambda>_.
        VisitReferences obj
          (\<lambda>offset s. AssertToSpaceInvariantRefsVisitor K self
                        (LoadRelaxed s (FieldSlot obj offset)) s)
          (\<lambda>klass s. CHECK (IsTypeOfReferenceClass (classes s klass))
                       ''klass->IsTypeOfReferenceClass()'' (Inr s))
          (\<lambda>i s. if LoadRelaxed s (NativeRootSlot obj i) \<noteq> 0
                 then AssertToSpaceInvariantRefsVisitor K self
                        (LoadRelaxed s (NativeRootSlot obj i)) s
                 else Inr s)
          s)))"

text \<open>
  Modelled from the spec: \<^verbatim>\<open>Object::AtomicSetReadBarrierPointer\<close> (\<^verbatim>\<open>object-inl.h\<close>) is not
  among the sources. Section 5 has the read-barrier-state transitions use a compare-and-set:
  it writes the new state when the object has the expected one and reports whether it did.
\<close>

definition AtomicSetReadBarrierPointer ::
  "ConcurrentCopying \<Rightarrow> ref \<Rightarrow> rb_ptr \<Rightarrow> rb_ptr \<Rightarrow> bool \<times> ConcurrentCopying" where
  "AtomicSetReadBarrierPointer s obj expected_rb_ptr rb_ptr' =
     (if GetReadBarrierPointer s obj = expected_rb_ptr
      then (True, SetReadBarrierPointer s obj rb_ptr')
      else (False, s))"

text \<open>
  The condition under which \<^verbatim>\<open>ProcessMarkStackRef\<close> leaves the reference gray (lines
  1308-1310).
\<close>

definition referent_not_in_to_space :: "runtime \<Rightarrow> ConcurrentCopying \<Rightarrow> ref \<Rightarrow> bool" where
  "referent_not_in_to_space R s to_ref' =
     (IsTypeOfReferenceClass (classes s (klass (heap s to_ref'))) \<and>
      referent (heap s to_ref') \<noteq> 0 \<and>
      \<not> IsInToSpace R s (referent (heap s to_ref')))"

definition ProcessMarkStackRef ::
  "build \<Rightarrow> Mark_fn \<Rightarrow> runtime \<Rightarrow> (slot \<Rightarrow> mutator list) \<Rightarrow> thread \<Rightarrow> ConcurrentCopying \<Rightarrow> ref \<Rightarrow>
     fatal + ConcurrentCopying" where
  "ProcessMarkStackRef K Mark R mut self s to_ref' =
     DCHECK (kIsDebugBuild K) (\<not> IsInFromSpace s to_ref') ''!region_space_->IsInFromSpace(to_ref)''
     (DCHECK (kIsDebugBuild K)
        (kUseBakerReadBarrier K \<longrightarrow> GetReadBarrierPointer s to_ref' = GrayPtr)
        ''to_ref->GetReadBarrierPointer() == ReadBarrier::GrayPtr()''
     (and_then (Scan K Mark R mut self s to_ref') (\<lambda>s1.
      DCHECK (kIsDebugBuild K)
        (kUseBakerReadBarrier K \<longrightarrow> GetReadBarrierPointer s1 to_ref' = GrayPtr)
        ''to_ref->GetReadBarrierPointer() == ReadBarrier::GrayPtr()''
     (and_then
        (if USE_BAKER_OR_BROOKS_READ_BARRIER K then
           (if referent_not_in_to_space R s1 to_ref' then
              DCHECK (kIsDebugBuild K) (pending_next (heap s1 to_ref') \<noteq> 0)
                ''Left unenqueued ref gray'' (Inr s1)
            else if kUseBakerReadBarrier K then
              (let (success, s2) = AtomicSetReadBarrierPointer s1 to_ref' GrayPtr WhitePtr
               in DCHECK (kIsDebugBuild K) success ''Must succeed as we won the race.'' (Inr s2))
            else Inr s1)
         else DCHECK (kIsDebugBuild K) (\<not> kUseBakerReadBarrier K) ''!kUseBakerReadBarrier''
                (Inr s1))
        (\<lambda>s3.
     and_then
        (if IsInUnevacFromSpace s3 to_ref' then
           DCHECK (kIsDebugBuild K) (region_space_bitmap s3 to_ref')
             ''region_space_bitmap_->Test(to_ref)''
            (let obj_size = SizeOf K s3 to_ref';
                 alloc_size = RoundUp obj_size (kAlignment K)
             in Inr (s3\<lparr>region_space_AddLiveBytes :=
                          region_space_AddLiveBytes s3 @ [(to_ref', alloc_size)]\<rparr>))
         else Inr s3)
        (\<lambda>s4.
     if kEnableToSpaceInvariantChecks K \<or> kIsDebugBuild K
     then AssertToSpaceInvariantObjectVisitor K self s4 to_ref'
     else Inr s4))))))"
subsection \<open>Auxiliary notions for the properties of the forwarding update\<close>

text \<open>The values that the mutators store into the slot, in order.\<close>

primrec mutator_stores :: "mutator list \<Rightarrow> ref list" where
  "mutator_stores [] = []"
| "mutator_stores (e # es) =
     (case e of StoresBeforeLoad v \<Rightarrow> [v] | StoresBeforeCas v \<Rightarrow> [v] | _ \<Rightarrow> []) @ mutator_stores es"

text \<open>The state after the mutators have stored these values and the collector nothing.\<close>

definition mutator_only :: "slot \<Rightarrow> ref list \<Rightarrow> ConcurrentCopying \<Rightarrow> ConcurrentCopying" where
  "mutator_only sl vs s = foldl (\<lambda>s v. StoreRelaxed s sl v) s vs"

text \<open>The forwarding update done at once: the new reference replaces the expected one, and
  no other value.\<close>

definition forwarded :: "slot \<Rightarrow> ref \<Rightarrow> ref \<Rightarrow> ConcurrentCopying \<Rightarrow> ConcurrentCopying" where
  "forwarded sl expected_ref new_ref s =
     (if LoadRelaxed s sl = expected_ref then StoreRelaxed s sl new_ref else s)"

text \<open>
  An object at 2000 in the to-space of \<open>state1\<close> with one reference field, which holds the
  from-space object 1000, and one native root, which holds it too; a root slot at address 7
  holds it as well. \<open>Mark_forwards\<close> returns 2008 for the object 1000 and its argument
  otherwise.
\<close>

definition state2 :: ConcurrentCopying where
  "state2 = state1\<lparr>
     heap := (heap state1)(2000 := zeroed\<lparr>klass := 24, rb_ptr := GrayPtr, ref_fields := [1000],
                                          native_roots := [1000]\<rparr>),
     root_slots := (\<lambda>a. if a = 7 then 1000 else 0)\<rparr>"

definition Mark_forwards :: Mark_fn where
  "Mark_forwards kGrayImmuneObject self r s = Inr (if r = 1000 then 2008 else r, s)"

definition mutators_quiet :: "slot \<Rightarrow> mutator list" where
  "mutators_quiet sl = []"

definition mutator_stores_24 :: "slot \<Rightarrow> mutator list" where
  "mutator_stores_24 sl = [CasFailsSpuriously, StoresBeforeCas 24]"

text \<open>
  For the examples: a runtime whose \<^verbatim>\<open>IsInToSpace\<close> is the region space's and whose reference
  processor does nothing; \<open>state2\<close> with, in addition, a reference class at 32 and at 2016 a
  gray object of that class, enqueued, whose referent is the from-space object 1000.
\<close>

definition runtime0 :: runtime where
  "runtime0 = \<lparr>IsInToSpace = region_space_IsInToSpace,
               DelayReferenceReferent = (\<lambda>klass reference s. Inr s)\<rparr>"

definition state3 :: ConcurrentCopying where
  "state3 = state2\<lparr>
     heap := (heap state2)(2016 := zeroed\<lparr>klass := 32, rb_ptr := GrayPtr, referent := 1000,
                                          pending_next := 2016\<rparr>),
     classes := (classes state2)(32 := \<lparr>IsTypeOfReferenceClass = True, IsArrayClass = False,
                                        GetComponentSize = 0, GetObjectSize = 24\<rparr>)\<rparr>"

text \<open>
  How many entries of the schedule have had their turn when the loop ends, given the
  reference \<open>r\<close> that the collector expects and the value \<open>v\<close> of the slot: the stores of
  these entries have taken place, those of the later entries have not.
\<close>

fun entries_used :: "ref \<Rightarrow> ref \<Rightarrow> mutator list \<Rightarrow> nat" where
  "entries_used r v [] = 0"
| "entries_used r v (NoStore # es) = (if v = r then 1 else 0)"
| "entries_used r v (StoresBeforeLoad w # es) = 1"
| "entries_used r v (StoresBeforeCas w # es) =
     (if v \<noteq> r then 0 else if w = r then 1 else Suc (entries_used r w es))"
| "entries_used r v (CasFailsSpuriously # es) =
     (if v \<noteq> r then 0 else Suc (entries_used r v es))"

text \<open>
  Two kinds of schedule. After any number of spurious failures of the compare-and-set,
  the mutators store into the slot, and they never store the reference \<open>r\<close>; or, after any
  number of spurious failures, they leave the collector one iteration to itself.
\<close>

definition spurious_failures :: "mutator list \<Rightarrow> nat" where
  "spurious_failures sched = length (takeWhile (\<lambda>e. e = CasFailsSpuriously) sched)"

definition stores_other_value :: "ref \<Rightarrow> mutator list \<Rightarrow> bool" where
  "stores_other_value r sched =
     (r \<notin> set (mutator_stores sched) \<and>
      (case dropWhile (\<lambda>e. e = CasFailsSpuriously) sched of
         StoresBeforeLoad v # es \<Rightarrow> True
       | StoresBeforeCas v # es \<Rightarrow> True
       | _ \<Rightarrow> False))"

definition stays_away :: "mutator list \<Rightarrow> bool" where
  "stays_away sched =
     (case dropWhile (\<lambda>e. e = CasFailsSpuriously) sched of
        [] \<Rightarrow> True
      | NoStore # es \<Rightarrow> True
      | _ \<Rightarrow> False)"

section \<open>Properties\<close>

subsection \<open>Checks and sequencing\<close>

lemma and_then_Inr_iff: "and_then m f = Inr y \<longleftrightarrow> (\<exists>x. m = Inr x \<and> f x = Inr y)"
  by (cases m) (auto simp: and_then_def)

lemma and_then_simps: "and_then (Inr x) f = f x" "and_then (Inl e) f = Inl e"
  by (auto simp: and_then_def)

lemma CHECK_Inr_iff: "CHECK c t rest = Inr y \<longleftrightarrow> c \<and> rest = Inr y"
  by (auto simp: CHECK_def)

lemma DCHECK_Inr_iff: "DCHECK d c t rest = Inr y \<longleftrightarrow> (d \<longrightarrow> c) \<and> rest = Inr y"
  by (auto simp: DCHECK_def)

lemma CHECK_simps: "CHECK True t rest = rest" "CHECK False t rest = Inl (CheckFailed t)"
  by (auto simp: CHECK_def)

lemma DCHECK_simps:
  "DCHECK d True t rest = rest" "DCHECK False c t rest = rest"
  "DCHECK True False t rest = Inl (CheckFailed t)"
  by (auto simp: DCHECK_def)

subsection \<open>FillWithDummyObject on a block smaller than an int array header\<close>

lemma ScopedGcGraysImmuneObjects_exit_Inr:
  "ScopedGcGraysImmuneObjects_exit K self en s = Inr s' \<Longrightarrow>
     heap s' = heap s \<and> classes s' = classes s \<and> java_lang_Object s' = java_lang_Object s"
  by (auto simp: ScopedGcGraysImmuneObjects_exit_def DCHECK_Inr_iff split: if_splits)

lemma FillWithDummyObject_small_Inr:
  assumes "byte_size < DataOffset K (sizeof_int32_t K)"
    and "FillWithDummyObject K M self s dummy_obj byte_size = Inr s'"
  shows "byte_size mod kObjectAlignment K = 0 \<and>
         byte_size = GetObjectSize (classes s' (java_lang_Object s')) \<and>
         klass (heap s' dummy_obj) = java_lang_Object s'"
proof -
  obtain enabled s1 where e: "ScopedGcGraysImmuneObjects_enter K self s = (enabled, s1)"
    by (cases "ScopedGcGraysImmuneObjects_enter K self s")
  from assms(2) e obtain iac s3 where
    al: "byte_size mod kObjectAlignment K = 0" and
    cs: "GetComponentSize (classes s3 iac) = sizeof_int32_t K" and
    rest: "(if DataOffset K (GetComponentSize (classes s3 iac)) > byte_size then
               and_then (AssertToSpaceInvariant K self s3 0 0 (java_lang_Object s3)) (\<lambda>u.
                 CHECK (byte_size = GetObjectSize (classes s3 (java_lang_Object s3)))
                   ''CHECK_EQ(byte_size, java_lang_Object->GetObjectSize())''
                  (let s4 = SetClass s3 dummy_obj (java_lang_Object s3) in
                   CHECK (byte_size = SizeOf K s4 dummy_obj)
                     ''CHECK_EQ(byte_size, dummy_obj->SizeOf())''
                    (ScopedGcGraysImmuneObjects_exit K self enabled s4)))
             else
               (let s4 = SetClass s3 dummy_obj iac in
                CHECK (IsArrayClass (classes s4 (klass (heap s4 dummy_obj))))
                  ''dummy_obj->IsArrayInstance()''
                 (let length = int32_t ((byte_size - DataOffset K (GetComponentSize (classes s3 iac)))
                                 div GetComponentSize (classes s3 iac));
                      s5 = SetLength s4 dummy_obj length in
                  CHECK (array_length (heap s5 dummy_obj) = length)
                    ''CHECK_EQ(dummy_arr->GetLength(), length)''
                   (CHECK (byte_size = SizeOf K s5 dummy_obj)
                     ''CHECK_EQ(byte_size, dummy_obj->SizeOf())''
                     (ScopedGcGraysImmuneObjects_exit K self enabled s5))))) = Inr s'"
    by (auto simp: FillWithDummyObject_def Let_def and_then_Inr_iff CHECK_Inr_iff)
  from rest cs assms(1) have
    "byte_size = GetObjectSize (classes s3 (java_lang_Object s3))" and
    ex: "ScopedGcGraysImmuneObjects_exit K self enabled
           (SetClass s3 dummy_obj (java_lang_Object s3)) = Inr s'"
    by (auto simp: and_then_Inr_iff CHECK_Inr_iff Let_def)
  with ScopedGcGraysImmuneObjects_exit_Inr [OF ex] al show ?thesis
    by (simp add: SetClass_def)
qed

lemma FillWithDummyObject_small_succeeds:
  assumes small: "byte_size < DataOffset K (sizeof_int32_t K)"
    and m: "Mark True self (IntArray_GetArrayClass s)
              (memset0 (snd (ScopedGcGraysImmuneObjects_enter K self s)) dummy_obj byte_size)
            = Inr (int_array_class, s3)"
    and nn: "int_array_class \<noteq> 0"
    and a1: "AssertToSpaceInvariant K self s3 0 0 int_array_class = Inr ()"
    and cs: "GetComponentSize (classes s3 int_array_class) = sizeof_int32_t K"
    and a2: "AssertToSpaceInvariant K self s3 0 0 (java_lang_Object s3) = Inr ()"
    and na: "\<not> IsArrayClass (classes s3 (java_lang_Object s3))"
    and fl: "fst (ScopedGcGraysImmuneObjects_enter K self s) \<longrightarrow> gc_grays_immune_objects s3"
  shows "(\<exists>s'. FillWithDummyObject K Mark self s dummy_obj byte_size = Inr s') \<longleftrightarrow>
         byte_size mod kObjectAlignment K = 0 \<and>
         byte_size = GetObjectSize (classes s3 (java_lang_Object s3))"
proof -
  obtain enabled s1 where e: "ScopedGcGraysImmuneObjects_enter K self s = (enabled, s1)"
    by (cases "ScopedGcGraysImmuneObjects_enter K self s")
  have ia: "IntArray_GetArrayClass (memset0 s1 dummy_obj byte_size) = IntArray_GetArrayClass s"
    using e by (auto simp: memset0_def ScopedGcGraysImmuneObjects_enter_def split: if_splits)
  have ex: "\<exists>s'. ScopedGcGraysImmuneObjects_exit K self enabled
                   (SetClass s3 dummy_obj (java_lang_Object s3)) = Inr s'"
    using fl e by (auto simp: ScopedGcGraysImmuneObjects_exit_def DCHECK_def SetClass_def)
  have sz: "SizeOf K (SetClass s3 dummy_obj (java_lang_Object s3)) dummy_obj
            = GetObjectSize (classes s3 (java_lang_Object s3))"
    using na by (simp add: SizeOf_def SetClass_def)
  show ?thesis
    using small m nn a1 cs a2 e ia ex sz
    by (auto simp: FillWithDummyObject_def Let_def and_then_simps CHECK_def)
qed

lemma aligned_between:
  fixes a m n :: nat
  assumes "n mod a = 0" and "a dvd m" and "m \<le> n" and "n < m + a"
  shows "n = m"
proof -
  from assms(1) have "a dvd n" by auto
  then obtain j where j: "n = a * j" by (auto simp: dvd_def)
  from assms(2) obtain k where k: "m = a * k" by (auto simp: dvd_def)
  from assms(4) have a: "0 < a" by (cases a) (use assms j k in auto)
  from assms(3) j k a have "k \<le> j" by simp
  moreover from assms(4) j k have "a * j < a * (k + 1)" by simp
  with a have "j < k + 1" by (simp only: mult_less_cancel1)
  ultimately show ?thesis using j k by simp
qed

text \<open>
  C9. \<^verbatim>\<open>FillWithDummyObject\<close> on a block whose byte size is smaller than the data offset of
  an int array, given that its call of \<^verbatim>\<open>Mark\<close> returns an int array class that is not null,
  has 4-byte components and passes the to-space check, that \<^verbatim>\<open>java.lang.Object\<close> passes the
  to-space check and is not an array class, and that \<^verbatim>\<open>gc_grays_immune_objects_\<close> is still
  set after \<^verbatim>\<open>Mark\<close> when the function had set it on entry.

  First, for every size its callers pass: a multiple of \<^verbatim>\<open>kObjectAlignment\<close> that is at least
  \<^verbatim>\<open>RoundUp(sizeof(mirror::Object), kAlignment)\<close> (the check of \<^verbatim>\<open>AllocateInSkippedBlock\<close> on
  the remainder of a block, and the size of any allocation that \<^verbatim>\<open>Copy\<close> makes), in an object
  layout where that minimum is aligned, is the instance size of \<^verbatim>\<open>java.lang.Object\<close>, and
  the data offset is at most one alignment step above it. Then the function succeeds, the
  block carries the class \<^verbatim>\<open>java.lang.Object\<close> and the byte size is its instance size.
  Second, in particular, it succeeds whenever the byte size is aligned and equal to the
  instance size of \<^verbatim>\<open>java.lang.Object\<close>. Third, with no assumption but the size: whenever it
  returns, it has installed the class \<^verbatim>\<open>java.lang.Object\<close> and not the int array header.
\<close>

theorem FillWithDummyObject_small_block:
  assumes "byte_size < DataOffset K (sizeof_int32_t K)"
    and "Mark True self (IntArray_GetArrayClass s)
              (memset0 (snd (ScopedGcGraysImmuneObjects_enter K self s)) dummy_obj byte_size)
            = Inr (int_array_class, s3)"
    and "int_array_class \<noteq> 0"
    and "AssertToSpaceInvariant K self s3 0 0 int_array_class = Inr ()"
    and "GetComponentSize (classes s3 int_array_class) = sizeof_int32_t K"
    and "AssertToSpaceInvariant K self s3 0 0 (java_lang_Object s3) = Inr ()"
    and "\<not> IsArrayClass (classes s3 (java_lang_Object s3))"
    and "fst (ScopedGcGraysImmuneObjects_enter K self s) \<longrightarrow> gc_grays_immune_objects s3"
  shows
   "(byte_size mod kObjectAlignment K = 0 \<and>
     RoundUp (sizeof_Object K) (kAlignment K) \<le> byte_size \<and>
     kObjectAlignment K dvd RoundUp (sizeof_Object K) (kAlignment K) \<and>
     DataOffset K (sizeof_int32_t K) \<le>
       RoundUp (sizeof_Object K) (kAlignment K) + kObjectAlignment K \<and>
     GetObjectSize (classes s3 (java_lang_Object s3)) =
       RoundUp (sizeof_Object K) (kAlignment K) \<longrightarrow>
     (\<exists>s'. FillWithDummyObject K Mark self s dummy_obj byte_size = Inr s' \<and>
           klass (heap s' dummy_obj) = java_lang_Object s' \<and>
           byte_size = GetObjectSize (classes s' (java_lang_Object s')))) \<and>
    (byte_size mod kObjectAlignment K = 0 \<and>
     byte_size = GetObjectSize (classes s3 (java_lang_Object s3)) \<longrightarrow>
     (\<exists>s'. FillWithDummyObject K Mark self s dummy_obj byte_size = Inr s' \<and>
           klass (heap s' dummy_obj) = java_lang_Object s')) \<and>
    (\<forall>s'. FillWithDummyObject K Mark self s dummy_obj byte_size = Inr s' \<longrightarrow>
           klass (heap s' dummy_obj) = java_lang_Object s' \<and>
           byte_size = GetObjectSize (classes s' (java_lang_Object s')))"
proof -
  note iff = FillWithDummyObject_small_succeeds
    [where Mark = Mark and K = K and self = self and s = s and dummy_obj = dummy_obj
       and byte_size = byte_size and int_array_class = int_array_class and ?s3.0 = s3,
     OF assms]
  have third: "klass (heap s' dummy_obj) = java_lang_Object s' \<and>
               byte_size = GetObjectSize (classes s' (java_lang_Object s'))"
    if "FillWithDummyObject K Mark self s dummy_obj byte_size = Inr s'" for s'
    using FillWithDummyObject_small_Inr [OF assms(1) that] by simp
  have second: "\<exists>s'. FillWithDummyObject K Mark self s dummy_obj byte_size = Inr s' \<and>
           klass (heap s' dummy_obj) = java_lang_Object s' \<and>
           byte_size = GetObjectSize (classes s' (java_lang_Object s'))"
    if "byte_size mod kObjectAlignment K = 0"
      and "byte_size = GetObjectSize (classes s3 (java_lang_Object s3))"
  proof -
    from iff that obtain s' where "FillWithDummyObject K Mark self s dummy_obj byte_size = Inr s'"
      by blast
    with third [OF this] show ?thesis by blast
  qed
  have first: "\<exists>s'. FillWithDummyObject K Mark self s dummy_obj byte_size = Inr s' \<and>
           klass (heap s' dummy_obj) = java_lang_Object s' \<and>
           byte_size = GetObjectSize (classes s' (java_lang_Object s'))"
    if "byte_size mod kObjectAlignment K = 0"
      and "RoundUp (sizeof_Object K) (kAlignment K) \<le> byte_size"
      and "kObjectAlignment K dvd RoundUp (sizeof_Object K) (kAlignment K)"
      and "DataOffset K (sizeof_int32_t K) \<le>
             RoundUp (sizeof_Object K) (kAlignment K) + kObjectAlignment K"
      and "GetObjectSize (classes s3 (java_lang_Object s3)) =
             RoundUp (sizeof_Object K) (kAlignment K)"
  proof -
    from assms(1) that(4) have
      "byte_size < RoundUp (sizeof_Object K) (kAlignment K) + kObjectAlignment K" by simp
    from aligned_between [OF that(1) that(3) that(2) this] that(5)
    have "byte_size = GetObjectSize (classes s3 (java_lang_Object s3))" by simp
    with second that(1) show ?thesis by blast
  qed
  show ?thesis
  proof (intro conjI)
    show "byte_size mod kObjectAlignment K = 0 \<and>
     RoundUp (sizeof_Object K) (kAlignment K) \<le> byte_size \<and>
     kObjectAlignment K dvd RoundUp (sizeof_Object K) (kAlignment K) \<and>
     DataOffset K (sizeof_int32_t K) \<le>
       RoundUp (sizeof_Object K) (kAlignment K) + kObjectAlignment K \<and>
     GetObjectSize (classes s3 (java_lang_Object s3)) =
       RoundUp (sizeof_Object K) (kAlignment K) \<longrightarrow>
     (\<exists>s'. FillWithDummyObject K Mark self s dummy_obj byte_size = Inr s' \<and>
           klass (heap s' dummy_obj) = java_lang_Object s' \<and>
           byte_size = GetObjectSize (classes s' (java_lang_Object s')))"
      by (intro impI, elim conjE) (rule first)
    show "byte_size mod kObjectAlignment K = 0 \<and>
     byte_size = GetObjectSize (classes s3 (java_lang_Object s3)) \<longrightarrow>
     (\<exists>s'. FillWithDummyObject K Mark self s dummy_obj byte_size = Inr s' \<and>
           klass (heap s' dummy_obj) = java_lang_Object s')"
    proof (intro impI, elim conjE)
      assume "byte_size mod kObjectAlignment K = 0"
        "byte_size = GetObjectSize (classes s3 (java_lang_Object s3))"
      from second [OF this] show
        "\<exists>s'. FillWithDummyObject K Mark self s dummy_obj byte_size = Inr s' \<and>
           klass (heap s' dummy_obj) = java_lang_Object s'" by blast
    qed
    show "\<forall>s'. FillWithDummyObject K Mark self s dummy_obj byte_size = Inr s' \<longrightarrow>
           klass (heap s' dummy_obj) = java_lang_Object s' \<and>
           byte_size = GetObjectSize (classes s' (java_lang_Object s'))"
      by (intro allI impI) (rule third)
  qed
qed

lemma Mark_immune_state0:
  "Mark_immune True 1 (IntArray_GetArrayClass state0)
     (memset0 (snd (ScopedGcGraysImmuneObjects_enter build0 1 state0)) 4096 8)
   = Inr (16, memset0 (snd (ScopedGcGraysImmuneObjects_enter build0 1 state0)) 4096 8)"
  by (simp add: Mark_immune_def state0_def)

lemma state0_after_enter:
  "memset0 (snd (ScopedGcGraysImmuneObjects_enter build0 1 state0)) 4096 8 =
     state0\<lparr>gc_grays_immune_objects := True, heap := (\<lambda>r. zeroed)(4096 := zeroed)\<rparr>"
  by (simp add: ScopedGcGraysImmuneObjects_enter_def memset0_def build0_def state0_def)

theorem FillWithDummyObject_small_block_witness:
  "(8 :: nat) < DataOffset build0 (sizeof_int32_t build0) \<and>
   (8 :: nat) mod kObjectAlignment build0 = 0 \<and>
   RoundUp (sizeof_Object build0) (kAlignment build0) \<le> 8 \<and>
   kObjectAlignment build0 dvd RoundUp (sizeof_Object build0) (kAlignment build0) \<and>
   DataOffset build0 (sizeof_int32_t build0) \<le>
     RoundUp (sizeof_Object build0) (kAlignment build0) + kObjectAlignment build0 \<and>
   (\<exists>s'. FillWithDummyObject build0 Mark_immune 1 state0 4096 8 = Inr s' \<and>
         klass (heap s' 4096) = java_lang_Object s' \<and>
         8 = GetObjectSize (classes s' (java_lang_Object s')))"
proof -
  let ?s3 = "memset0 (snd (ScopedGcGraysImmuneObjects_enter build0 1 state0)) 4096 8"
  have small: "(8 :: nat) < DataOffset build0 (sizeof_int32_t build0)"
    by (simp add: build0_def)
  have a1: "AssertToSpaceInvariant build0 1 ?s3 0 0 16 = Inr ()"
    unfolding state0_after_enter
    by (simp add: AssertToSpaceInvariant_def AssertToSpaceInvariantInNonMovingSpace_def
          CHECK_def region_space_IsInToSpace_def IsInUnevacFromSpace_def IsInFromSpace_def
          build0_def state0_def)
  have a2: "AssertToSpaceInvariant build0 1 ?s3 0 0 (java_lang_Object ?s3) = Inr ()"
    unfolding state0_after_enter
    by (simp add: AssertToSpaceInvariant_def AssertToSpaceInvariantInNonMovingSpace_def
          CHECK_def region_space_IsInToSpace_def IsInUnevacFromSpace_def IsInFromSpace_def
          build0_def state0_def)
  have cs: "GetComponentSize (classes ?s3 16) = sizeof_int32_t build0"
    unfolding state0_after_enter by (simp add: state0_def classes0_def build0_def)
  have na: "\<not> IsArrayClass (classes ?s3 (java_lang_Object ?s3))"
    unfolding state0_after_enter by (simp add: state0_def classes0_def)
  have fl: "fst (ScopedGcGraysImmuneObjects_enter build0 1 state0) \<longrightarrow>
            gc_grays_immune_objects ?s3"
    unfolding state0_after_enter by simp
  have layout: "(8 :: nat) mod kObjectAlignment build0 = 0"
    "RoundUp (sizeof_Object build0) (kAlignment build0) \<le> 8"
    "kObjectAlignment build0 dvd RoundUp (sizeof_Object build0) (kAlignment build0)"
    "DataOffset build0 (sizeof_int32_t build0) \<le>
       RoundUp (sizeof_Object build0) (kAlignment build0) + kObjectAlignment build0"
    by (simp_all add: build0_def RoundUp_def)
  have sz: "GetObjectSize (classes ?s3 (java_lang_Object ?s3)) =
            RoundUp (sizeof_Object build0) (kAlignment build0)"
    unfolding state0_after_enter by (simp add: state0_def classes0_def build0_def RoundUp_def)
  have nn: "(16 :: nat) \<noteq> 0" by simp
  from FillWithDummyObject_small_block
         [where Mark = Mark_immune and K = build0 and self = 1 and s = state0
            and dummy_obj = 4096 and byte_size = 8 and int_array_class = 16 and ?s3.0 = ?s3,
          OF small Mark_immune_state0 nn a1 cs a2 na fl, THEN conjunct1, rule_format]
    layout sz
  have "\<exists>s'. FillWithDummyObject build0 Mark_immune 1 state0 4096 8 = Inr s' \<and>
         klass (heap s' 4096) = java_lang_Object s' \<and>
         8 = GetObjectSize (classes s' (java_lang_Object s'))"
    by simp
  with small layout show ?thesis by blast
qed


subsection \<open>Accounting at the reclaim phase\<close>

text \<open>
  C7. When the reclaim phase gets past its accounting checks and records the freed
  counts, \<^verbatim>\<open>objects_moved_\<close> is at most the number of objects allocated in the from-space
  and \<^verbatim>\<open>bytes_moved_\<close> at most the number of bytes allocated there, and the pair handed to
  \<^verbatim>\<open>RecordFree\<close> holds \<open>from_objects - to_objects\<close> and \<open>from_bytes - to_bytes\<close>, with
  no wrap-around in either subtraction. With the accounting check on, the from-space
  and unevac-from-space counts add up to the values captured at the flip pause. When
  one of the two bounds is violated the phase does not record anything: it aborts.
\<close>

theorem ReclaimPhase_accounting:
  "(ReclaimPhase_RecordFree K rs s = Inr p \<longrightarrow>
      objects_moved s \<le> GetObjectsAllocatedInFromSpace rs \<and>
      bytes_moved s \<le> GetBytesAllocatedInFromSpace rs \<and>
      objects p = GetObjectsAllocatedInFromSpace rs - objects_moved s \<and>
      bytes p = GetBytesAllocatedInFromSpace rs - bytes_moved s \<and>
      unat (objects p) = unat (GetObjectsAllocatedInFromSpace rs) - unat (objects_moved s) \<and>
      unat (bytes p) = unat (GetBytesAllocatedInFromSpace rs) - unat (bytes_moved s) \<and>
      unat (objects_moved s) \<le> unat (GetObjectsAllocatedInFromSpace rs) \<and>
      unat (bytes_moved s) \<le> unat (GetBytesAllocatedInFromSpace rs) \<and>
      (kEnableFromSpaceAccountingCheck K \<longrightarrow>
         from_space_num_objects_at_first_pause s =
           GetObjectsAllocatedInFromSpace rs + GetObjectsAllocatedInUnevacFromSpace rs \<and>
         from_space_num_bytes_at_first_pause s =
           GetBytesAllocatedInFromSpace rs + GetBytesAllocatedInUnevacFromSpace rs)) \<and>
   (\<not> (objects_moved s \<le> GetObjectsAllocatedInFromSpace rs \<and>
        bytes_moved s \<le> GetBytesAllocatedInFromSpace rs) \<longrightarrow>
      (\<exists>e. ReclaimPhase_RecordFree K rs s = Inl e))"
  by (auto simp: ReclaimPhase_RecordFree_def CHECK_def Let_def unat_sub word_le_nat_alt
           split: if_splits)

theorem ReclaimPhase_accounting_witness:
  "ReclaimPhase_RecordFree build0
     \<lparr>GetBytesAllocatedInFromSpace = 4096, GetObjectsAllocatedInFromSpace = 100,
      GetBytesAllocatedInUnevacFromSpace = 1024, GetObjectsAllocatedInUnevacFromSpace = 10\<rparr>
     (state0\<lparr>bytes_moved := 640, objects_moved := 20,
             from_space_num_objects_at_first_pause := 110,
             from_space_num_bytes_at_first_pause := 5120\<rparr>)
     = Inr \<lparr>objects = 80, bytes = 3456\<rparr> \<and>
   (\<exists>e. ReclaimPhase_RecordFree build0
     \<lparr>GetBytesAllocatedInFromSpace = 4096, GetObjectsAllocatedInFromSpace = 100,
      GetBytesAllocatedInUnevacFromSpace = 1024, GetObjectsAllocatedInUnevacFromSpace = 10\<rparr>
     (state0\<lparr>bytes_moved := 640, objects_moved := 101,
             from_space_num_objects_at_first_pause := 110,
             from_space_num_bytes_at_first_pause := 5120\<rparr>) = Inl e)"
proof -
  let ?rs = "\<lparr>GetBytesAllocatedInFromSpace = 4096, GetObjectsAllocatedInFromSpace = 100,
      GetBytesAllocatedInUnevacFromSpace = 1024, GetObjectsAllocatedInUnevacFromSpace = 10\<rparr>"
  let ?s = "state0\<lparr>bytes_moved := 640, objects_moved := 20,
             from_space_num_objects_at_first_pause := 110,
             from_space_num_bytes_at_first_pause := 5120\<rparr>"
  let ?t = "state0\<lparr>bytes_moved := 640, objects_moved := 101,
             from_space_num_objects_at_first_pause := 110,
             from_space_num_bytes_at_first_pause := 5120\<rparr>"
  have a: "ReclaimPhase_RecordFree build0 ?rs ?s = Inr \<lparr>objects = 80, bytes = 3456\<rparr>"
    by (simp add: ReclaimPhase_RecordFree_def CHECK_def build0_def)
  have b: "\<not> (objects_moved ?t \<le> GetObjectsAllocatedInFromSpace ?rs \<and>
               bytes_moved ?t \<le> GetBytesAllocatedInFromSpace ?rs)"
    by simp
  from ReclaimPhase_accounting [of build0 ?rs ?s "\<lparr>objects = 80, bytes = 3456\<rparr>"]
    ReclaimPhase_accounting [of build0 ?rs ?t "\<lparr>objects = 0, bytes = 0\<rparr>"] a b
  show ?thesis by blast
qed

subsection \<open>Copy: the loop\<close>

lemma ExpandGcMarkStack_frame:
  "ExpandGcMarkStack K s = Inr s' \<Longrightarrow> \<exists>st. s' = s\<lparr>gc_mark_stack := st\<rparr>"
  by (auto simp: ExpandGcMarkStack_def DCHECK_Inr_iff Let_def)

lemma entries_foldl_PushBack: "entries (foldl PushBack st xs) = entries st @ xs"
  by (induction xs arbitrary: st) (auto simp: PushBack_def)

lemma ExpandGcMarkStack_entries:
  "ExpandGcMarkStack K s = Inr s' \<Longrightarrow> entries (gc_mark_stack s') = entries (gc_mark_stack s)"
  by (auto simp: ExpandGcMarkStack_def DCHECK_Inr_iff Let_def entries_foldl_PushBack)

lemma push_gc_mark_stack_frame:
  "push_gc_mark_stack K s r = Inr s' \<Longrightarrow> \<exists>st. s' = s\<lparr>gc_mark_stack := st\<rparr>"
  by (auto simp: push_gc_mark_stack_def and_then_Inr_iff split: if_splits
           dest!: ExpandGcMarkStack_frame)

lemma push_gc_mark_stack_entries:
  "push_gc_mark_stack K s r = Inr s' \<Longrightarrow>
     entries (gc_mark_stack s') = entries (gc_mark_stack s) @ [r]"
  by (auto simp: push_gc_mark_stack_def and_then_Inr_iff PushBack_def split: if_splits
           dest!: ExpandGcMarkStack_entries)

lemma PushOntoMarkStack_pushes:
  "PushOntoMarkStack K self s r = Inr s' \<Longrightarrow> is_last_pushed self s' r"
  unfolding is_last_pushed_def PushOntoMarkStack_def
  by (auto simp: CHECK_Inr_iff DCHECK_Inr_iff Let_def PushBack_def
        split: if_splits prod.splits dest!: push_gc_mark_stack_entries)

lemma PushOntoMarkStack_frame:
  "PushOntoMarkStack K self s r = Inr s' \<Longrightarrow>
     \<exists>a b c d. s' = s\<lparr>gc_mark_stack := a, pooled_mark_stacks := b,
            revoked_mark_stacks := c, thread_local_mark_stack := d\<rparr>"
proof -
  assume a: "PushOntoMarkStack K self s r = Inr s'"
  then consider
      (gc) "push_gc_mark_stack K s r = Inr s'"
    | (tl) p rv t where "s' = s\<lparr>pooled_mark_stacks := p, thread_local_mark_stack := t, revoked_mark_stacks := rv\<rparr>"
    | (tl2) t where "s' = s\<lparr>thread_local_mark_stack := t\<rparr>"
    by (auto simp: PushOntoMarkStack_def CHECK_Inr_iff DCHECK_Inr_iff Let_def split: if_splits prod.splits)
  then show ?thesis
  proof cases
    case gc
    from push_gc_mark_stack_frame [OF this] obtain st where "s' = s\<lparr>gc_mark_stack := st\<rparr>" by blast
    then have "s' = s\<lparr>gc_mark_stack := st, pooled_mark_stacks := pooled_mark_stacks s,
            revoked_mark_stacks := revoked_mark_stacks s, thread_local_mark_stack := thread_local_mark_stack s\<rparr>"
      by simp
    then show ?thesis by blast
  next
    case (tl p rv t)
    then have "s' = s\<lparr>gc_mark_stack := gc_mark_stack s, pooled_mark_stacks := p,
            revoked_mark_stacks := rv, thread_local_mark_stack := t\<rparr>"
      by simp
    then show ?thesis by blast
  next
    case (tl2 t)
    then have "s' = s\<lparr>gc_mark_stack := gc_mark_stack s, pooled_mark_stacks := pooled_mark_stacks s,
            revoked_mark_stacks := revoked_mark_stacks s, thread_local_mark_stack := t\<rparr>"
      by simp
    then show ?thesis by blast
  qed
qed

lemma Copy_cas_None:
  "Copy_cas K self L sp old s = (None, s1) \<Longrightarrow>
     s1 = s \<and> (sp \<or> GetLockWord s (from_ref L) \<noteq> old)"
  by (auto simp: Copy_cas_def CasLockWordWeakSequentiallyConsistent_def Let_def
           split: if_splits prod.splits)

lemma Copy_cas_Some:
  "Copy_cas K self L sp old s = (Some r, s3) \<Longrightarrow>
     \<not> sp \<and> GetLockWord s (from_ref L) = old \<and> s3 = cas_installed L s \<and>
     (\<forall>x s4. r = Inr (x, s4) \<longrightarrow>
        x = to_ref L \<and> PushOntoMarkStack K self s3 (to_ref L) = Inr s4 \<and>
        GetState (GetLockWord s3 (to_ref L)) \<noteq> kForwardingAddress)"
  by (auto simp: Copy_cas_def CasLockWordWeakSequentiallyConsistent_def Let_def cas_installed_def
           DCHECK_Inr_iff CHECK_Inr_iff and_then_Inr_iff
           split: if_splits prod.splits)

lemma Copy_lost_race_result:
  "Copy_lost_race K M self L old s = Inr (r, s') \<Longrightarrow>
     r = ForwardingAddress old \<and> r \<noteq> 0 \<and> r \<noteq> to_ref L \<and>
     (region_space_IsInToSpace s' r \<or> non_moving_space_HasAddress s' r) \<and>
     GetState (GetLockWord s' r) \<noteq> kForwardingAddress"
  by (auto simp: Copy_lost_race_def and_then_Inr_iff CHECK_Inr_iff Let_def)

lemma heap_update_triv: "\<exists>h. s = s\<lparr>heap := h\<rparr>"
  by (rule exI [of _ "heap s"]) simp

lemma Copy_before_cas_Attempts:
  "Copy_before_cas K M self L s = AttemptsCas old s1 \<Longrightarrow>
     (\<exists>h. s1 = s\<lparr>heap := h\<rparr>) \<and> GetState old \<noteq> kForwardingAddress \<and>
     (kUseBakerReadBarrier K \<longrightarrow> GetReadBarrierPointer s1 (to_ref L) = GrayPtr)"
  by (auto simp: Copy_before_cas_def Let_def memcpy_def SetReadBarrierPointer_def
        GetReadBarrierPointer_def heap_update_triv split: if_splits)

lemma interfere_frame: "\<exists>h. interfere e r s = s\<lparr>heap := h\<rparr>"
  by (cases e) (auto simp: interfere_def intro: exI [of _ "heap s"])

lemma interfere_rb [simp]:
  "GetReadBarrierPointer (interfere e r s) x = GetReadBarrierPointer s x"
  by (cases e) (auto simp: interfere_def GetReadBarrierPointer_def)

lemma won_after_cas:
  assumes gray: "kUseBakerReadBarrier K \<longrightarrow> GetReadBarrierPointer s1 (to_ref L) = GrayPtr"
    and s1: "s1 = s\<lparr>heap := h\<rparr>"
    and cas: "Copy_cas K self L sp old s1 = (Some (Inr (r, s')), s3)"
  shows "r = to_ref L \<and> won self K L s s'"
proof -
  from Copy_cas_Some [OF cas] have r: "r = to_ref L" and s3: "s3 = cas_installed L s1"
    and push: "PushOntoMarkStack K self s3 (to_ref L) = Inr s'"
    by auto
  from PushOntoMarkStack_frame [OF push] obtain a b c d where
    s': "s' = s3\<lparr>gc_mark_stack := a, pooled_mark_stacks := b,
            revoked_mark_stacks := c, thread_local_mark_stack := d\<rparr>" by blast
  have 1: "s' = s\<lparr>heap := heap s3, objects_moved := objects_moved s + 1,
                bytes_moved := bytes_moved s + of_nat (region_space_alloc_size L),
                gc_mark_stack := a, pooled_mark_stacks := b, revoked_mark_stacks := c,
                thread_local_mark_stack := d\<rparr>"
    unfolding s' s3 s1 cas_installed_def by simp
  have 2: "GetLockWord s' (from_ref L) = FromForwardingAddress (to_ref L)"
    unfolding s' s3 cas_installed_def by (simp add: GetLockWord_def)
  have 3: "kUseBakerReadBarrier K \<longrightarrow> GetReadBarrierPointer s' (to_ref L) = GrayPtr"
    using gray unfolding s' s3 cas_installed_def by (auto simp: GetReadBarrierPointer_def)
  from 1 2 3 PushOntoMarkStack_pushes [OF push] r show ?thesis
    unfolding won_def by blast
qed

lemma won_heap_change: "won self K L (s\<lparr>heap := h\<rparr>) s' \<Longrightarrow> won self K L s s'"
  unfolding won_def by auto

lemma Copy_loop_won:
  "Copy_loop K M self L sched s = Inr (r, s') \<Longrightarrow> r = to_ref L \<Longrightarrow> won self K L s s'"
proof (induction sched arbitrary: s)
  case Nil
  show ?case
  proof (cases "Copy_before_cas K M self L s")
    case (Returns x)
    with Nil have "Copy_lost_race K M self L (GetLockWord (memcpy s (to_ref L) (from_ref L) (obj_size L)) (to_ref L)) (memcpy s (to_ref L) (from_ref L) (obj_size L)) = Inr (r, s')"
      by (auto simp: Copy_before_cas_def Let_def split: if_splits)
    from Copy_lost_race_result [OF this] Nil(2) show ?thesis by simp
  next
    case (AttemptsCas old s1)
    from Copy_before_cas_Attempts [OF this] obtain h where
      h: "s1 = s\<lparr>heap := h\<rparr>" and g: "kUseBakerReadBarrier K \<longrightarrow> GetReadBarrierPointer s1 (to_ref L) = GrayPtr" by blast
    from Nil(1) AttemptsCas obtain s3 where "Copy_cas K self L False old s1 = (Some (Inr (r, s')), s3)"
      by (auto split: prod.splits option.splits)
    from won_after_cas [OF g h this] show ?thesis by simp
  qed
next
  case (Cons e es)
  show ?case
  proof (cases "Copy_before_cas K M self L s")
    case (Returns x)
    with Cons(2) have "Copy_lost_race K M self L (GetLockWord (memcpy s (to_ref L) (from_ref L) (obj_size L)) (to_ref L)) (memcpy s (to_ref L) (from_ref L) (obj_size L)) = Inr (r, s')"
      by (auto simp: Copy_before_cas_def Let_def split: if_splits)
    from Copy_lost_race_result [OF this] Cons(3) show ?thesis by simp
  next
    case (AttemptsCas old s1)
    from Copy_before_cas_Attempts [OF this] obtain h where
      h: "s1 = s\<lparr>heap := h\<rparr>" and g: "kUseBakerReadBarrier K \<longrightarrow> GetReadBarrierPointer s1 (to_ref L) = GrayPtr" by blast
    from interfere_frame [of e "from_ref L" s1] h obtain h' where
      h': "interfere e (from_ref L) s1 = s\<lparr>heap := h'\<rparr>" by auto
    have g': "kUseBakerReadBarrier K \<longrightarrow> GetReadBarrierPointer (interfere e (from_ref L) s1) (to_ref L) = GrayPtr"
      using g by simp
    show ?thesis
    proof (cases "Copy_cas K self L (e = SpuriousFailure) old (interfere e (from_ref L) s1)")
      case (Pair o' s2)
      show ?thesis
      proof (cases o')
        case None
        with Pair Copy_cas_None have s2: "s2 = interfere e (from_ref L) s1" by blast
        from Cons(2) AttemptsCas Pair None have "Copy_loop K M self L es s2 = Inr (r, s')" by simp
        from Cons.IH [OF this Cons(3)] have "won self K L s2 s'" .
        with s2 h' show ?thesis by (auto intro: won_heap_change)
      next
        case (Some rr)
        with Cons(2) AttemptsCas Pair have "rr = Inr (r, s')" by simp
        with Pair Some have "Copy_cas K self L (e = SpuriousFailure) old (interfere e (from_ref L) s1) = (Some (Inr (r, s')), s2)" by simp
        from won_after_cas [OF g' h' this] show ?thesis by simp
      qed
    qed
  qed
qed

lemma won_fields:
  "won self K L s s' \<Longrightarrow>
     objects_moved s' = objects_moved s + 1 \<and>
     bytes_moved s' = bytes_moved s + of_nat (region_space_alloc_size L) \<and>
     mark_bitmap s' = mark_bitmap s \<and> GetRegionType s' = GetRegionType s \<and>
     skipped_blocks_map s' = skipped_blocks_map s"
  unfolding won_def by auto

text \<open>
  C3. In Baker mode the state on which the compare-and-set of the forwarding address
  is attempted has the copy gray, whatever other threads did to the lock word of the
  from-space object in between; a compare-and-set that succeeds on such a state
  leaves the forwarding address in the lock word with the copy still gray, adds one
  to \<^verbatim>\<open>objects_moved_\<close> and the allocation size to \<^verbatim>\<open>bytes_moved_\<close>, and the copy is then
  pushed on the mark stack; and whenever the loop returns the thread's own copy, all
  of this holds of the state it returns.
\<close>

theorem Copy_gray_before_forwarding:
  assumes "kUseBakerReadBarrier K"
  shows
   "(\<forall>old s1 e. Copy_before_cas K Mark self L s = AttemptsCas old s1 \<longrightarrow>
        GetReadBarrierPointer (interfere e (from_ref L) s1) (to_ref L) = GrayPtr) \<and>
    (\<forall>sp old s1 r s3.
        GetReadBarrierPointer s1 (to_ref L) = GrayPtr \<and>
        Copy_cas K self L sp old s1 = (Some r, s3) \<longrightarrow>
        GetLockWord s3 (from_ref L) = FromForwardingAddress (to_ref L) \<and>
        GetReadBarrierPointer s3 (to_ref L) = GrayPtr \<and>
        objects_moved s3 = objects_moved s1 + 1 \<and>
        bytes_moved s3 = bytes_moved s1 + of_nat (region_space_alloc_size L) \<and>
        (\<forall>x s4. r = Inr (x, s4) \<longrightarrow>
           x = to_ref L \<and> is_last_pushed self s4 x \<and>
           GetReadBarrierPointer s4 x = GrayPtr)) \<and>
    (\<forall>sched s'. Copy_loop K Mark self L sched s = Inr (to_ref L, s') \<longrightarrow>
        GetLockWord s' (from_ref L) = FromForwardingAddress (to_ref L) \<and>
        GetReadBarrierPointer s' (to_ref L) = GrayPtr \<and>
        objects_moved s' = objects_moved s + 1 \<and>
        bytes_moved s' = bytes_moved s + of_nat (region_space_alloc_size L) \<and>
        is_last_pushed self s' (to_ref L))"
proof (intro conjI)
  show "\<forall>old s1 e. Copy_before_cas K Mark self L s = AttemptsCas old s1 \<longrightarrow>
        GetReadBarrierPointer (interfere e (from_ref L) s1) (to_ref L) = GrayPtr"
    using assms by (auto dest: Copy_before_cas_Attempts)
next
  show "\<forall>sp old s1 r s3.
        GetReadBarrierPointer s1 (to_ref L) = GrayPtr \<and>
        Copy_cas K self L sp old s1 = (Some r, s3) \<longrightarrow>
        GetLockWord s3 (from_ref L) = FromForwardingAddress (to_ref L) \<and>
        GetReadBarrierPointer s3 (to_ref L) = GrayPtr \<and>
        objects_moved s3 = objects_moved s1 + 1 \<and>
        bytes_moved s3 = bytes_moved s1 + of_nat (region_space_alloc_size L) \<and>
        (\<forall>x s4. r = Inr (x, s4) \<longrightarrow>
           x = to_ref L \<and> is_last_pushed self s4 x \<and>
           GetReadBarrierPointer s4 x = GrayPtr)"
  proof (intro allI impI, elim conjE)
    fix sp old s1 r s3
    assume g: "GetReadBarrierPointer s1 (to_ref L) = GrayPtr"
      and c: "Copy_cas K self L sp old s1 = (Some r, s3)"
    from Copy_cas_Some [OF c] have s3: "s3 = cas_installed L s1" by simp
    have a: "GetLockWord s3 (from_ref L) = FromForwardingAddress (to_ref L) \<and>
        GetReadBarrierPointer s3 (to_ref L) = GrayPtr \<and>
        objects_moved s3 = objects_moved s1 + 1 \<and>
        bytes_moved s3 = bytes_moved s1 + of_nat (region_space_alloc_size L)"
      using g unfolding s3 cas_installed_def
      by (auto simp: GetLockWord_def GetReadBarrierPointer_def)
    have b: "\<forall>x s4. r = Inr (x, s4) \<longrightarrow>
           x = to_ref L \<and> is_last_pushed self s4 x \<and>
           GetReadBarrierPointer s4 x = GrayPtr"
    proof (intro allI impI)
      fix x s4 assume "r = Inr (x, s4)"
      with c have cc: "Copy_cas K self L sp old s1 = (Some (Inr (x, s4)), s3)" by simp
      have t: "s1 = s1\<lparr>heap := heap s1\<rparr>" by simp
      have gg: "kUseBakerReadBarrier K \<longrightarrow> GetReadBarrierPointer s1 (to_ref L) = GrayPtr"
        using g by simp
      from won_after_cas [OF gg t cc] assms
      show "x = to_ref L \<and> is_last_pushed self s4 x \<and> GetReadBarrierPointer s4 x = GrayPtr"
        by (auto simp: won_def)
    qed
    from a b show "GetLockWord s3 (from_ref L) = FromForwardingAddress (to_ref L) \<and>
        GetReadBarrierPointer s3 (to_ref L) = GrayPtr \<and>
        objects_moved s3 = objects_moved s1 + 1 \<and>
        bytes_moved s3 = bytes_moved s1 + of_nat (region_space_alloc_size L) \<and>
        (\<forall>x s4. r = Inr (x, s4) \<longrightarrow>
           x = to_ref L \<and> is_last_pushed self s4 x \<and>
           GetReadBarrierPointer s4 x = GrayPtr)" by blast
  qed
next
  show "\<forall>sched s'. Copy_loop K Mark self L sched s = Inr (to_ref L, s') \<longrightarrow>
        GetLockWord s' (from_ref L) = FromForwardingAddress (to_ref L) \<and>
        GetReadBarrierPointer s' (to_ref L) = GrayPtr \<and>
        objects_moved s' = objects_moved s + 1 \<and>
        bytes_moved s' = bytes_moved s + of_nat (region_space_alloc_size L) \<and>
        is_last_pushed self s' (to_ref L)"
  proof (intro allI impI)
    fix sched s' assume "Copy_loop K Mark self L sched s = Inr (to_ref L, s')"
    from Copy_loop_won [OF this refl] have w: "won self K L s s'" .
    from w won_fields [OF w] assms
    show "GetLockWord s' (from_ref L) = FromForwardingAddress (to_ref L) \<and>
        GetReadBarrierPointer s' (to_ref L) = GrayPtr \<and>
        objects_moved s' = objects_moved s + 1 \<and>
        bytes_moved s' = bytes_moved s + of_nat (region_space_alloc_size L) \<and>
        is_last_pushed self s' (to_ref L)"
      by (simp add: won_def)
  qed
qed

lemma Copy_loop_example:
  "case Copy_loop build0 Mark_immune 1 L0 [LockWordWritten (LockWord kHashCode 77)] state1 of
     Inr (r, s') \<Rightarrow> r = 2000 | Inl e \<Rightarrow> False"
  by (simp add: Let_def L0_def Copy_before_cas_def Copy_cas_def memcpy_def GetLockWord_def
        SetReadBarrierPointer_def interfere_def CasLockWordWeakSequentiallyConsistent_def
        FromForwardingAddress_def DCHECK_def CHECK_def and_then_def GetFwdPtr_def
        region_space_IsInToSpace_def GetReadBarrierPointer_def PushOntoMarkStack_def
        push_gc_mark_stack_def IsFull_def PushBack_def
        build0_def state1_def state0_def zeroed_def)

theorem Copy_gray_before_forwarding_witness:
  "kUseBakerReadBarrier build0 \<and>
   (\<exists>s'. Copy_loop build0 Mark_immune 1 L0 [LockWordWritten (LockWord kHashCode 77)] state1
           = Inr (to_ref L0, s') \<and>
         GetLockWord s' (from_ref L0) = FromForwardingAddress (to_ref L0) \<and>
         GetReadBarrierPointer s' (to_ref L0) = GrayPtr \<and>
         objects_moved s' = objects_moved state1 + 1 \<and>
         is_last_pushed 1 s' (to_ref L0))"
proof -
  have b: "kUseBakerReadBarrier build0" by (simp add: build0_def)
  from Copy_loop_example obtain s' where
    s': "Copy_loop build0 Mark_immune 1 L0 [LockWordWritten (LockWord kHashCode 77)] state1
           = Inr (to_ref L0, s')"
    by (auto simp: L0_def split: sum.splits)
  from Copy_gray_before_forwarding [OF b, of Mark_immune 1 L0 state1,
         THEN conjunct2, THEN conjunct2, rule_format, OF s'] b s'
  show ?thesis by blast
qed

subsection \<open>Copy: the allocation\<close>

lemma Copy_allocate_region:
  assumes "kIsDebugBuild K \<longrightarrow> IsInFromSpace s from"
    and "AllocNonvirtual A (RoundUp (SizeOf K s from) (kAlignment K)) = (t, n)"
    and "t \<noteq> 0" and "kIsDebugBuild K \<longrightarrow> n = RoundUp (SizeOf K s from) (kAlignment K)"
  shows "Copy_allocate K M A self s from =
      Inr (\<lparr>from_ref = from, to_ref = t, obj_size = SizeOf K s from,
            region_space_alloc_size = RoundUp (SizeOf K s from) (kAlignment K),
            bytes_allocated = n, non_moving_space_bytes_allocated = 0,
            fall_back_to_non_moving = False\<rparr>, s)"
  using assms by (auto simp: Copy_allocate_def Let_def DCHECK_def and_then_simps)

lemma Copy_allocate_skipped:
  assumes "kIsDebugBuild K \<longrightarrow> IsInFromSpace s from"
    and "fst (AllocNonvirtual A (RoundUp (SizeOf K s from) (kAlignment K))) = 0"
    and "AllocateInSkippedBlock K M self s (RoundUp (SizeOf K s from) (kAlignment K)) = Inr (t, s1)"
    and "t \<noteq> 0"
  shows "Copy_allocate K M A self s from =
      Inr (\<lparr>from_ref = from, to_ref = t, obj_size = SizeOf K s from,
            region_space_alloc_size = RoundUp (SizeOf K s from) (kAlignment K),
            bytes_allocated = RoundUp (SizeOf K s from) (kAlignment K),
            non_moving_space_bytes_allocated = 0,
            fall_back_to_non_moving = False\<rparr>,
           if use_tlab s1
           then s1\<lparr>region_space_RecordAlloc := region_space_RecordAlloc s1 @ [t]\<rparr> else s1)"
  using assms
  by (cases "AllocNonvirtual A (RoundUp (SizeOf K s from) (kAlignment K))")
     (auto simp: Copy_allocate_def Let_def DCHECK_def and_then_simps)

lemma Copy_allocate_skipped_fails:
  assumes "kIsDebugBuild K \<longrightarrow> IsInFromSpace s from"
    and "fst (AllocNonvirtual A (RoundUp (SizeOf K s from) (kAlignment K))) = 0"
    and "AllocateInSkippedBlock K M self s (RoundUp (SizeOf K s from) (kAlignment K)) = Inl e"
  shows "Copy_allocate K M A self s from = Inl e"
  using assms
  by (cases "AllocNonvirtual A (RoundUp (SizeOf K s from) (kAlignment K))")
     (auto simp: Copy_allocate_def Let_def DCHECK_def and_then_simps)

lemma Copy_allocate_fallback:
  assumes "kIsDebugBuild K \<longrightarrow> IsInFromSpace s from"
    and "fst (AllocNonvirtual A (RoundUp (SizeOf K s from) (kAlignment K))) = 0"
    and "AllocateInSkippedBlock K M self s (RoundUp (SizeOf K s from) (kAlignment K)) = Inr (0, s1)"
    and "non_moving_space_Alloc A (SizeOf K s from) = (t, n)"
  shows "Copy_allocate K M A self s from =
     (if t = 0 then Inl (CheckFailed ''Fall-back non-moving space allocation failed'')
      else if \<not> has_continuous_space_bitmap s1 t then Inl (CheckFailed ''mark_bitmap != nullptr'')
      else if mark_bitmap s1 t then Inl (CheckFailed ''!mark_bitmap->AtomicTestAndSet(to_ref)'')
      else Inr (\<lparr>from_ref = from, to_ref = t, obj_size = SizeOf K s from,
                 region_space_alloc_size = RoundUp (SizeOf K s from) (kAlignment K),
                 bytes_allocated = n, non_moving_space_bytes_allocated = n,
                 fall_back_to_non_moving = True\<rparr>,
                s1\<lparr>mark_bitmap := (mark_bitmap s1)(t := True)\<rparr>))"
  using assms
  by (cases "AllocNonvirtual A (RoundUp (SizeOf K s from) (kAlignment K))")
     (auto simp: Copy_allocate_def Let_def DCHECK_def CHECK_def and_then_simps)

lemma Copy_fallback_bitmap:
  assumes "kIsDebugBuild K \<longrightarrow> IsInFromSpace s from"
    and "fst (AllocNonvirtual A (RoundUp (SizeOf K s from) (kAlignment K))) = 0"
    and "AllocateInSkippedBlock K M self s (RoundUp (SizeOf K s from) (kAlignment K)) = Inr (0, s1)"
    and "non_moving_space_Alloc A (SizeOf K s from) = (t, n)"
    and "Copy K M A sched self s from = Inr (t, s')"
  shows "t \<noteq> 0 \<and> \<not> mark_bitmap s1 t \<and> mark_bitmap s' = (mark_bitmap s1)(t := True)"
proof -
  from assms(5) obtain L s2 where
    al: "Copy_allocate K M A self s from = Inr (L, s2)" and
    lp: "Copy_loop K M self L sched s2 = Inr (t, s')"
    by (auto simp: Copy_def and_then_Inr_iff)
  from al Copy_allocate_fallback [OF assms(1-4)] have
    t: "t \<noteq> 0" "\<not> mark_bitmap s1 t" and L: "to_ref L = t" and
    s2: "s2 = s1\<lparr>mark_bitmap := (mark_bitmap s1)(t := True)\<rparr>"
    by (auto split: if_splits)
  from Copy_loop_won [OF lp] L have "won self K L s2 s'" by simp
  from won_fields [OF this] s2 t show ?thesis by simp
qed

text \<open>
  C4. \<^verbatim>\<open>Copy\<close> takes the block the region space returns and then touches neither the
  skipped-blocks map nor the non-moving space; when the region space returns null it
  takes the block \<^verbatim>\<open>AllocateInSkippedBlock\<close> returns; when that returns null too it
  allocates in the non-moving space: a null result there aborts with the mandatory
  check, a block whose mark bit is already set aborts, and otherwise the bit, found
  unset, is set. When \<^verbatim>\<open>Copy\<close> then returns this block, the mark bitmap of the state it
  returns differs from the one before the allocation in this bit only.
\<close>

theorem Copy_allocation_order:
  assumes "kIsDebugBuild K \<longrightarrow> IsInFromSpace s from"
  shows
   "(\<forall>t n. AllocNonvirtual A (RoundUp (SizeOf K s from) (kAlignment K)) = (t, n) \<and> t \<noteq> 0 \<and>
            (kIsDebugBuild K \<longrightarrow> n = RoundUp (SizeOf K s from) (kAlignment K)) \<longrightarrow>
       Copy_allocate K Mark A self s from =
         Inr (\<lparr>from_ref = from, to_ref = t, obj_size = SizeOf K s from,
               region_space_alloc_size = RoundUp (SizeOf K s from) (kAlignment K),
               bytes_allocated = n, non_moving_space_bytes_allocated = 0,
               fall_back_to_non_moving = False\<rparr>, s)) \<and>
    (fst (AllocNonvirtual A (RoundUp (SizeOf K s from) (kAlignment K))) = 0 \<longrightarrow>
       (\<forall>e. AllocateInSkippedBlock K Mark self s (RoundUp (SizeOf K s from) (kAlignment K)) = Inl e
            \<longrightarrow> Copy_allocate K Mark A self s from = Inl e) \<and>
       (\<forall>t s1. AllocateInSkippedBlock K Mark self s (RoundUp (SizeOf K s from) (kAlignment K))
                = Inr (t, s1) \<and> t \<noteq> 0 \<longrightarrow>
          Copy_allocate K Mark A self s from =
            Inr (\<lparr>from_ref = from, to_ref = t, obj_size = SizeOf K s from,
                  region_space_alloc_size = RoundUp (SizeOf K s from) (kAlignment K),
                  bytes_allocated = RoundUp (SizeOf K s from) (kAlignment K),
                  non_moving_space_bytes_allocated = 0,
                  fall_back_to_non_moving = False\<rparr>,
                 if use_tlab s1
                 then s1\<lparr>region_space_RecordAlloc := region_space_RecordAlloc s1 @ [t]\<rparr>
                 else s1)) \<and>
       (\<forall>s1 t n. AllocateInSkippedBlock K Mark self s (RoundUp (SizeOf K s from) (kAlignment K))
                  = Inr (0, s1) \<and>
                non_moving_space_Alloc A (SizeOf K s from) = (t, n) \<longrightarrow>
          Copy_allocate K Mark A self s from =
            (if t = 0 then Inl (CheckFailed ''Fall-back non-moving space allocation failed'')
             else if \<not> has_continuous_space_bitmap s1 t
               then Inl (CheckFailed ''mark_bitmap != nullptr'')
             else if mark_bitmap s1 t
               then Inl (CheckFailed ''!mark_bitmap->AtomicTestAndSet(to_ref)'')
             else Inr (\<lparr>from_ref = from, to_ref = t, obj_size = SizeOf K s from,
                        region_space_alloc_size = RoundUp (SizeOf K s from) (kAlignment K),
                        bytes_allocated = n, non_moving_space_bytes_allocated = n,
                        fall_back_to_non_moving = True\<rparr>,
                       s1\<lparr>mark_bitmap := (mark_bitmap s1)(t := True)\<rparr>)) \<and>
          (t = 0 \<longrightarrow>
             (\<forall>sched. Copy K Mark A sched self s from =
                Inl (CheckFailed ''Fall-back non-moving space allocation failed''))) \<and>
          (\<forall>sched s'. Copy K Mark A sched self s from = Inr (t, s') \<longrightarrow>
             t \<noteq> 0 \<and> \<not> mark_bitmap s1 t \<and>
             mark_bitmap s' = (mark_bitmap s1)(t := True))))"
proof (intro conjI allI impI; (elim conjE)?)
  fix t n
  assume "AllocNonvirtual A (RoundUp (SizeOf K s from) (kAlignment K)) = (t, n)" "t \<noteq> 0"
    "kIsDebugBuild K \<longrightarrow> n = RoundUp (SizeOf K s from) (kAlignment K)"
  from Copy_allocate_region [OF assms this]
  show "Copy_allocate K Mark A self s from =
         Inr (\<lparr>from_ref = from, to_ref = t, obj_size = SizeOf K s from,
               region_space_alloc_size = RoundUp (SizeOf K s from) (kAlignment K),
               bytes_allocated = n, non_moving_space_bytes_allocated = 0,
               fall_back_to_non_moving = False\<rparr>, s)" .
next
  fix e
  assume "fst (AllocNonvirtual A (RoundUp (SizeOf K s from) (kAlignment K))) = 0"
    "AllocateInSkippedBlock K Mark self s (RoundUp (SizeOf K s from) (kAlignment K)) = Inl e"
  from Copy_allocate_skipped_fails [OF assms this]
  show "Copy_allocate K Mark A self s from = Inl e" .
next
  fix t s1
  assume "fst (AllocNonvirtual A (RoundUp (SizeOf K s from) (kAlignment K))) = 0"
    "AllocateInSkippedBlock K Mark self s (RoundUp (SizeOf K s from) (kAlignment K)) = Inr (t, s1)"
    "t \<noteq> 0"
  from Copy_allocate_skipped [OF assms this]
  show "Copy_allocate K Mark A self s from =
            Inr (\<lparr>from_ref = from, to_ref = t, obj_size = SizeOf K s from,
                  region_space_alloc_size = RoundUp (SizeOf K s from) (kAlignment K),
                  bytes_allocated = RoundUp (SizeOf K s from) (kAlignment K),
                  non_moving_space_bytes_allocated = 0,
                  fall_back_to_non_moving = False\<rparr>,
                 if use_tlab s1
                 then s1\<lparr>region_space_RecordAlloc := region_space_RecordAlloc s1 @ [t]\<rparr>
                 else s1)" .
next
  fix s1 t n
  assume h: "fst (AllocNonvirtual A (RoundUp (SizeOf K s from) (kAlignment K))) = 0"
    "AllocateInSkippedBlock K Mark self s (RoundUp (SizeOf K s from) (kAlignment K)) = Inr (0, s1)"
    "non_moving_space_Alloc A (SizeOf K s from) = (t, n)"
  from Copy_allocate_fallback [OF assms h]
  show "Copy_allocate K Mark A self s from =
            (if t = 0 then Inl (CheckFailed ''Fall-back non-moving space allocation failed'')
             else if \<not> has_continuous_space_bitmap s1 t
               then Inl (CheckFailed ''mark_bitmap != nullptr'')
             else if mark_bitmap s1 t
               then Inl (CheckFailed ''!mark_bitmap->AtomicTestAndSet(to_ref)'')
             else Inr (\<lparr>from_ref = from, to_ref = t, obj_size = SizeOf K s from,
                        region_space_alloc_size = RoundUp (SizeOf K s from) (kAlignment K),
                        bytes_allocated = n, non_moving_space_bytes_allocated = n,
                        fall_back_to_non_moving = True\<rparr>,
                       s1\<lparr>mark_bitmap := (mark_bitmap s1)(t := True)\<rparr>))" .
next
  fix s1 t n sched
  assume h: "fst (AllocNonvirtual A (RoundUp (SizeOf K s from) (kAlignment K))) = 0"
    "AllocateInSkippedBlock K Mark self s (RoundUp (SizeOf K s from) (kAlignment K)) = Inr (0, s1)"
    "non_moving_space_Alloc A (SizeOf K s from) = (t, n)"
    and t: "t = 0"
  from Copy_allocate_fallback [OF assms h] t
  show "Copy K Mark A sched self s from =
                Inl (CheckFailed ''Fall-back non-moving space allocation failed'')"
    by (simp add: Copy_def and_then_simps)
next
  fix s1 t n sched s'
  assume h: "fst (AllocNonvirtual A (RoundUp (SizeOf K s from) (kAlignment K))) = 0"
    "AllocateInSkippedBlock K Mark self s (RoundUp (SizeOf K s from) (kAlignment K)) = Inr (0, s1)"
    "non_moving_space_Alloc A (SizeOf K s from) = (t, n)"
    "Copy K Mark A sched self s from = Inr (t, s')"
  from Copy_fallback_bitmap [OF assms h]
  show "t \<noteq> 0" "\<not> mark_bitmap s1 t" "mark_bitmap s' = (mark_bitmap s1)(t := True)"
    by simp_all
qed

lemma state1_size:
  "SizeOf build0 state1 1000 = 8" "RoundUp 8 (kAlignment build0) = 8"
  by (simp_all add: SizeOf_def RoundUp_def state1_def state0_def classes0_def build0_def zeroed_def)

lemma state1_from_space: "kIsDebugBuild build0 \<longrightarrow> IsInFromSpace state1 1000"
  by (simp add: IsInFromSpace_def state1_def)

lemma state1_no_skipped_block:
  "AllocateInSkippedBlock build0 Mark_immune 1 state1 8 = Inr (0, state1)"
  by (simp add: AllocateInSkippedBlock_def CHECK_def lower_bound_def Let_def
        state1_def state0_def build0_def)

lemma build0_simps:
  "kIsDebugBuild build0" "kUseBakerReadBarrier build0" "kAlignment build0 = 8"
  "kObjectAlignment build0 = 8" "kRegionSize build0 = 1048576"
  by (simp_all add: build0_def)

theorem Copy_allocation_order_witness:
  "kIsDebugBuild build0 \<and> IsInFromSpace state1 1000 \<and>
   Copy_allocate build0 Mark_immune A_region 1 state1 1000 = Inr (L0, state1) \<and>
   Copy_allocate build0 Mark_immune A_non_moving 1 state1 1000 =
     Inr (L0\<lparr>to_ref := 5000, non_moving_space_bytes_allocated := 8,
             fall_back_to_non_moving := True\<rparr>,
          state1\<lparr>mark_bitmap := (mark_bitmap state1)(5000 := True)\<rparr>) \<and>
   Copy build0 Mark_immune A_none [] 1 state1 1000 =
     Inl (CheckFailed ''Fall-back non-moving space allocation failed'')"
proof -
  note main = Copy_allocation_order [OF state1_from_space]
  have a: "Copy_allocate build0 Mark_immune A_region 1 state1 1000 = Inr (L0, state1)"
    using main [of A_region Mark_immune 1, THEN conjunct1, rule_format, of 2000 8]
    by (simp add: state1_size A_region_def L0_def)
  have nb: "\<not> mark_bitmap state1 5000" "has_continuous_space_bitmap state1 5000"
    by (simp_all add: state1_def state0_def)
  have b: "Copy_allocate build0 Mark_immune A_non_moving 1 state1 1000 =
     Inr (L0\<lparr>to_ref := 5000, non_moving_space_bytes_allocated := 8,
             fall_back_to_non_moving := True\<rparr>,
          state1\<lparr>mark_bitmap := (mark_bitmap state1)(5000 := True)\<rparr>)"
    using main [of A_non_moving Mark_immune 1, THEN conjunct2, rule_format,
                THEN conjunct2, THEN conjunct2, rule_format, of state1 5000 8, THEN conjunct1]
      state1_no_skipped_block nb
    by (simp add: state1_size A_non_moving_def L0_def)
  have c: "Copy build0 Mark_immune A_none [] 1 state1 1000 =
     Inl (CheckFailed ''Fall-back non-moving space allocation failed'')"
    using main [of A_none Mark_immune 1, THEN conjunct2, rule_format,
                THEN conjunct2, THEN conjunct2, rule_format, of state1 0 0,
                THEN conjunct2, THEN conjunct1, rule_format, of "[]"]
      state1_no_skipped_block
    by (simp add: state1_size A_none_def)
  have d: "kIsDebugBuild build0" "IsInFromSpace state1 1000"
    by (simp_all add: IsInFromSpace_def state1_def build0_def)
  from d a b c show ?thesis by blast
qed

subsection \<open>Copy: losing the race\<close>

lemma race_start_inv: "race_start f T s \<Longrightarrow> race_inv f T s"
  unfolding race_start_def race_inv_def by fastforce

lemma FillWithDummyObject_shape:
  assumes "FillWithDummyObject K M self s d n = Inr s1"
  shows "\<exists>iac s3 h g.
           M True self (IntArray_GetArrayClass s)
             (memset0 (snd (ScopedGcGraysImmuneObjects_enter K self s)) d n) = Inr (iac, s3) \<and>
           s1 = s3\<lparr>heap := h, gc_grays_immune_objects := g\<rparr> \<and>
           (\<forall>x. x \<noteq> d \<longrightarrow> h x = heap s3 x)"
proof -
  obtain enabled s0 where e: "ScopedGcGraysImmuneObjects_enter K self s = (enabled, s0)"
    by (cases "ScopedGcGraysImmuneObjects_enter K self s")
  have ia: "IntArray_GetArrayClass (memset0 s0 d n) = IntArray_GetArrayClass s"
    using e by (auto simp: memset0_def ScopedGcGraysImmuneObjects_enter_def split: if_splits)
  from assms e ia obtain iac s3 s4 where
    m: "M True self (IntArray_GetArrayClass s) (memset0 s0 d n) = Inr (iac, s3)" and
    x: "ScopedGcGraysImmuneObjects_exit K self enabled s4 = Inr s1" and
    s4: "s4 = SetClass s3 d (java_lang_Object s3) \<or>
         (\<exists>len. s4 = SetLength (SetClass s3 d iac) d len)"
    by (auto simp: FillWithDummyObject_def Let_def and_then_Inr_iff CHECK_Inr_iff
             split: if_splits)
  from x have s1: "s1 = s4\<lparr>gc_grays_immune_objects := gc_grays_immune_objects s1\<rparr>"
    by (auto simp: ScopedGcGraysImmuneObjects_exit_def DCHECK_Inr_iff split: if_splits)
  from s4 have "s4 = s3\<lparr>heap := heap s4\<rparr> \<and> (\<forall>x. x \<noteq> d \<longrightarrow> heap s4 x = heap s3 x)"
    by (auto simp: SetClass_def SetLength_def)
  with s1 have "s1 = s3\<lparr>heap := heap s4, gc_grays_immune_objects := gc_grays_immune_objects s1\<rparr>
      \<and> (\<forall>x. x \<noteq> d \<longrightarrow> heap s4 x = heap s3 x)"
    by (metis (no_types) ConcurrentCopying.update_convs(4,19) ConcurrentCopying.surjective)
  with m e show ?thesis by auto
qed

lemma enter_memset_frame:
  "d \<noteq> f \<Longrightarrow>
   GetLockWord (memset0 (snd (ScopedGcGraysImmuneObjects_enter K self s)) d n) f = GetLockWord s f \<and>
   objects_moved (memset0 (snd (ScopedGcGraysImmuneObjects_enter K self s)) d n) = objects_moved s \<and>
   bytes_moved (memset0 (snd (ScopedGcGraysImmuneObjects_enter K self s)) d n) = bytes_moved s"
  by (auto simp: memset0_def ScopedGcGraysImmuneObjects_enter_def GetLockWord_def)

lemma Copy_lost_race_Inr:
  assumes "Copy_lost_race K M self L old s = Inr (r, s')"
  shows "\<exists>s1. FillWithDummyObject K M self s (to_ref L) (bytes_allocated L) = Inr s1 \<and>
              s' = recycled K L s1 \<and> r = ForwardingAddress old \<and>
              (fall_back_to_non_moving L \<longrightarrow> mark_bitmap s1 (to_ref L))"
proof -
  from assms obtain s1 s2 where
    fill: "FillWithDummyObject K M self s (to_ref L) (bytes_allocated L) = Inr s1" and
    rec: "(if \<not> fall_back_to_non_moving L then
         DCHECK (kIsDebugBuild K) (region_space_IsInToSpace s1 (to_ref L))
           ''region_space_->IsInToSpace(to_ref)''
          (if bytes_allocated L > kRegionSize K then
             Inr (s1\<lparr>region_space_FreeLarge :=
                       region_space_FreeLarge s1 @ [(to_ref L, bytes_allocated L)]\<rparr>)
           else
             Inr (s1\<lparr>num_bytes_allocated := num_bytes_allocated s1 + of_nat (bytes_allocated L),
                     to_space_bytes_skipped :=
                       to_space_bytes_skipped s1 + of_nat (bytes_allocated L),
                     to_space_objects_skipped := to_space_objects_skipped s1 + 1,
                     skipped_blocks_map :=
                       multimap_insert (skipped_blocks_map s1) (bytes_allocated L, to_ref L)\<rparr>))
       else
         DCHECK (kIsDebugBuild K) (non_moving_space_HasAddress s1 (to_ref L))
           ''heap_->non_moving_space_->HasAddress(to_ref)''
         (DCHECK (kIsDebugBuild K) (bytes_allocated L = non_moving_space_bytes_allocated L)
           ''DCHECK_EQ(bytes_allocated, non_moving_space_bytes_allocated)''
         (CHECK (has_continuous_space_bitmap s1 (to_ref L)) ''mark_bitmap != nullptr''
         (CHECK (mark_bitmap s1 (to_ref L)) ''mark_bitmap->Clear(to_ref)''
           (Inr (s1\<lparr>mark_bitmap := (mark_bitmap s1)(to_ref L := False),
                   non_moving_space_Free := non_moving_space_Free s1 @ [to_ref L]\<rparr>)))))) = Inr s2"
    and fin: "r = ForwardingAddress old" "s' = s2"
    unfolding Copy_lost_race_def
    by (simp only: and_then_Inr_iff CHECK_Inr_iff Let_def) blast
  from rec have "s2 = recycled K L s1 \<and> (fall_back_to_non_moving L \<longrightarrow> mark_bitmap s1 (to_ref L))"
    unfolding recycled_def
    by (auto simp: DCHECK_Inr_iff CHECK_Inr_iff split: if_splits)
  with fill fin show ?thesis by blast
qed

lemma recycled_leaves:
  "GetLockWord (recycled K L s1) f = GetLockWord s1 f \<and>
   objects_moved (recycled K L s1) = objects_moved s1 \<and>
   bytes_moved (recycled K L s1) = bytes_moved s1"
  by (simp add: recycled_def GetLockWord_def)

lemma Copy_before_cas_Returns:
  "Copy_before_cas K M self L s = Returns x \<Longrightarrow>
     GetState (GetLockWord (memcpy s (to_ref L) (from_ref L) (obj_size L)) (to_ref L))
       = kForwardingAddress \<and>
     x = Copy_lost_race K M self L
           (GetLockWord (memcpy s (to_ref L) (from_ref L) (obj_size L)) (to_ref L))
           (memcpy s (to_ref L) (from_ref L) (obj_size L))"
  unfolding Copy_before_cas_def Let_def by (simp split: if_splits)

lemma Copy_before_cas_Attempts_leaves:
  assumes "Copy_before_cas K M self L s = AttemptsCas old s1"
    and "from_ref L = f" "to_ref L \<noteq> f" "obj_size L \<noteq> 0"
  shows "GetState old \<noteq> kForwardingAddress \<and>
         GetLockWord s1 f = GetLockWord s f \<and>
         objects_moved s1 = objects_moved s \<and> bytes_moved s1 = bytes_moved s"
  using assms
  by (auto simp: Copy_before_cas_def Let_def memcpy_def GetLockWord_def SetReadBarrierPointer_def
           split: if_splits)

lemma Copy_cas_wins_leaves:
  assumes "Copy_cas K self L sp old s = (Some (Inr (r, s')), s3)" and "from_ref L = f"
  shows "GetLockWord s f = old \<and> r = to_ref L \<and>
         GetLockWord s' f = FromForwardingAddress r \<and>
         objects_moved s' = objects_moved s + 1 \<and>
         bytes_moved s' = bytes_moved s + of_nat (region_space_alloc_size L)"
proof -
  from Copy_cas_Some [OF assms(1)] have
    old: "GetLockWord s (from_ref L) = old" and s3: "s3 = cas_installed L s" and r: "r = to_ref L"
    and push: "PushOntoMarkStack K self s3 (to_ref L) = Inr s'" by auto
  from PushOntoMarkStack_frame [OF push] obtain a b c d where
    "s' = s3\<lparr>gc_mark_stack := a, pooled_mark_stacks := b,
            revoked_mark_stacks := c, thread_local_mark_stack := d\<rparr>" by blast
  with s3 old r assms(2) show ?thesis
    by (simp add: cas_installed_def GetLockWord_def)
qed

lemma FillWithDummyObject_Inr_dummy:
  assumes "FillWithDummyObject K M self s d n = Inr s1"
  shows "SizeOf K s1 d = n \<and>
         (klass (heap s1 d) = java_lang_Object s1 \<or>
          IsArrayClass (classes s1 (klass (heap s1 d))))"
proof -
  obtain enabled s0 where e: "ScopedGcGraysImmuneObjects_enter K self s = (enabled, s0)"
    by (cases "ScopedGcGraysImmuneObjects_enter K self s")
  from assms e obtain s4 where
    x: "ScopedGcGraysImmuneObjects_exit K self enabled s4 = Inr s1" and
    s4: "n = SizeOf K s4 d"
        "klass (heap s4 d) = java_lang_Object s4 \<or> IsArrayClass (classes s4 (klass (heap s4 d)))"
    by (auto simp: FillWithDummyObject_def Let_def and_then_Inr_iff CHECK_Inr_iff SetClass_def
                   SetLength_def split: if_splits)
  from ScopedGcGraysImmuneObjects_exit_Inr [OF x] s4 show ?thesis
    by (simp add: SizeOf_def Let_def)
qed

lemma FillWithDummyObject_keeps:
  assumes "FillWithDummyObject K M self s d n = Inr s1"
    and "Mark_keeps_forwarding_address M x" and "d \<noteq> x"
    and "GetState (GetLockWord s x) = kForwardingAddress"
  shows "GetLockWord s1 x = GetLockWord s x"
proof -
  let ?s0 = "memset0 (snd (ScopedGcGraysImmuneObjects_enter K self s)) d n"
  from FillWithDummyObject_shape [OF assms(1)] obtain iac s3 h g where
    m: "M True self (IntArray_GetArrayClass s) ?s0 = Inr (iac, s3)" and
    s1: "s1 = s3\<lparr>heap := h, gc_grays_immune_objects := g\<rparr>" and
    h: "\<forall>y. y \<noteq> d \<longrightarrow> h y = heap s3 y" by blast
  from enter_memset_frame [OF assms(3), of K self s n] have
    e: "GetLockWord ?s0 x = GetLockWord s x" by simp
  with assms(4) have "GetState (GetLockWord ?s0 x) = kForwardingAddress" by simp
  with assms(2) m have "GetLockWord s3 x = GetLockWord ?s0 x"
    unfolding Mark_keeps_forwarding_address_def by blast
  with e s1 h assms(3) show ?thesis by (simp add: GetLockWord_def)
qed

lemma Copy_lost_race_keeps:
  assumes "Copy_lost_race K M self L old s = Inr (r, s')"
    and "Mark_keeps_forwarding_address M x" and "to_ref L \<noteq> x"
    and "GetState (GetLockWord s x) = kForwardingAddress"
  shows "r = ForwardingAddress old \<and> GetLockWord s' x = GetLockWord s x"
proof -
  from Copy_lost_race_Inr [OF assms(1)] obtain s1 where
    fill: "FillWithDummyObject K M self s (to_ref L) (bytes_allocated L) = Inr s1" and
    s': "s' = recycled K L s1" and r: "r = ForwardingAddress old" by blast
  from FillWithDummyObject_keeps [OF fill assms(2,3,4)] recycled_leaves [of K L s1 x] s' r
  show ?thesis by simp
qed

lemma Copy_before_cas_Returns_keeps:
  assumes "Copy_before_cas K M self L s = Returns (Inr (r, s'))"
    and "Mark_keeps_forwarding_address M f"
    and "from_ref L = f" "to_ref L \<noteq> f" "obj_size L \<noteq> 0"
  shows "GetState (GetLockWord s f) = kForwardingAddress \<and>
         GetLockWord s f = FromForwardingAddress r \<and>
         GetLockWord s' f = GetLockWord s f"
proof -
  define s1 where "s1 = memcpy s (to_ref L) (from_ref L) (obj_size L)"
  have old: "GetLockWord s1 (to_ref L) = GetLockWord s f"
    using assms(3-5) by (simp add: s1_def memcpy_def GetLockWord_def)
  have fr: "GetLockWord s1 f = GetLockWord s f"
    using assms(4) by (simp_all add: s1_def memcpy_def GetLockWord_def)
  from Copy_before_cas_Returns [OF assms(1)] have
    st: "GetState (GetLockWord s1 (to_ref L)) = kForwardingAddress" and
    lr: "Copy_lost_race K M self L (GetLockWord s1 (to_ref L)) s1 = Inr (r, s')"
    unfolding s1_def by simp_all
  from st have st1: "GetState (GetLockWord s1 f) = kForwardingAddress" unfolding old fr .
  from Copy_lost_race_keeps [OF lr assms(2,4) st1] have
    a: "r = ForwardingAddress (GetLockWord s f)" "GetLockWord s' f = GetLockWord s f"
    unfolding old fr by simp_all
  from st have st': "GetState (GetLockWord s f) = kForwardingAddress" unfolding old .
  from st' a(1) have "GetLockWord s f = FromForwardingAddress r"
    by (cases "GetLockWord s f") (simp add: FromForwardingAddress_def)
  with st' a(2) show ?thesis by blast
qed

lemma race_invD:
  assumes "race_inv f T s"
  shows "GetState (GetLockWord s f) \<noteq> kForwardingAddress \<Longrightarrow> T t \<noteq> Some (Won r)"
    and "GetState (GetLockWord s f) \<noteq> kForwardingAddress \<Longrightarrow> T t \<noteq> Some (Lost r)"
    and "GetState (GetLockWord s f) = kForwardingAddress \<Longrightarrow> \<exists>w r. T w = Some (Won r)"
    and "T t = Some (Won r) \<Longrightarrow> GetLockWord s f = FromForwardingAddress r"
    and "T t = Some (Lost r) \<Longrightarrow> GetLockWord s f = FromForwardingAddress r"
    and "T t = Some (Won r) \<Longrightarrow> T t' = Some (Won r') \<Longrightarrow> t = t'"
    and "T t = Some (Running L) \<Longrightarrow> from_ref L = f \<and> to_ref L \<noteq> f \<and> obj_size L \<noteq> 0"
    and "T t = Some (AtCas L old) \<Longrightarrow>
          from_ref L = f \<and> to_ref L \<noteq> f \<and> obj_size L \<noteq> 0 \<and>
          GetState old \<noteq> kForwardingAddress"
proof -
  from assms have
    c1: "GetState (GetLockWord s f) \<noteq> kForwardingAddress \<longrightarrow>
         (\<forall>t r. T t \<noteq> Some (Won r) \<and> T t \<noteq> Some (Lost r))" and
    c2: "GetState (GetLockWord s f) = kForwardingAddress \<longrightarrow> (\<exists>w r. T w = Some (Won r))" and
    c3: "\<forall>t r. T t = Some (Won r) \<or> T t = Some (Lost r) \<longrightarrow>
          GetLockWord s f = FromForwardingAddress r" and
    c4: "\<forall>t t' r r'. T t = Some (Won r) \<and> T t' = Some (Won r') \<longrightarrow> t = t'" and
    c5: "\<forall>t L. T t = Some (Running L) \<longrightarrow> from_ref L = f \<and> to_ref L \<noteq> f \<and> obj_size L \<noteq> 0" and
    c6: "\<forall>t L old. T t = Some (AtCas L old) \<longrightarrow>
          from_ref L = f \<and> to_ref L \<noteq> f \<and> obj_size L \<noteq> 0 \<and>
          GetState old \<noteq> kForwardingAddress"
    unfolding race_inv_def by blast+
  from c1 show "GetState (GetLockWord s f) \<noteq> kForwardingAddress \<Longrightarrow> T t \<noteq> Some (Won r)"
    by blast
  from c1 show "GetState (GetLockWord s f) \<noteq> kForwardingAddress \<Longrightarrow> T t \<noteq> Some (Lost r)"
    by blast
  from c2 show "GetState (GetLockWord s f) = kForwardingAddress \<Longrightarrow> \<exists>w r. T w = Some (Won r)"
    by blast
  from c3 show "T t = Some (Won r) \<Longrightarrow> GetLockWord s f = FromForwardingAddress r" by blast
  from c3 show "T t = Some (Lost r) \<Longrightarrow> GetLockWord s f = FromForwardingAddress r" by blast
  from c4 show "T t = Some (Won r) \<Longrightarrow> T t' = Some (Won r') \<Longrightarrow> t = t'" by blast
  from c5 show "T t = Some (Running L) \<Longrightarrow> from_ref L = f \<and> to_ref L \<noteq> f \<and> obj_size L \<noteq> 0"
    by blast
  from c6 show "T t = Some (AtCas L old) \<Longrightarrow>
          from_ref L = f \<and> to_ref L \<noteq> f \<and> obj_size L \<noteq> 0 \<and>
          GetState old \<noteq> kForwardingAddress" by blast
qed

lemma race_inv_update:
  assumes inv: "race_inv f T s"
    and lw: "GetLockWord s' f = GetLockWord s f"
    and old: "\<And>r. T t \<noteq> Some (Won r)"
    and c: "case c of
              Running L \<Rightarrow> from_ref L = f \<and> to_ref L \<noteq> f \<and> obj_size L \<noteq> 0
            | AtCas L old \<Rightarrow> from_ref L = f \<and> to_ref L \<noteq> f \<and> obj_size L \<noteq> 0 \<and>
                            GetState old \<noteq> kForwardingAddress
            | Won r \<Rightarrow> False
            | Lost r \<Rightarrow> GetLockWord s f = FromForwardingAddress r"
  shows "race_inv f (T(t := Some c)) s'"
proof -
  note i1 = race_invD(1) [OF inv] and i2 = race_invD(2) [OF inv]
    and i3 = race_invD(3) [OF inv] and i4 = race_invD(4) [OF inv]
    and i5 = race_invD(5) [OF inv] and i6 = race_invD(6) [OF inv]
    and i7 = race_invD(7) [OF inv] and i8 = race_invD(8) [OF inv]
  have fwd: "\<And>r. GetState (FromForwardingAddress r) = kForwardingAddress"
    by (simp add: FromForwardingAddress_def)
  have nw: "\<And>r. c \<noteq> Won r" using c by (cases c) auto
  have p1: "GetState (GetLockWord s f) \<noteq> kForwardingAddress \<longrightarrow>
         (\<forall>t' r. (T(t := Some c)) t' \<noteq> Some (Won r) \<and> (T(t := Some c)) t' \<noteq> Some (Lost r))"
  proof (intro impI allI)
    fix t' r assume nf: "GetState (GetLockWord s f) \<noteq> kForwardingAddress"
    show "(T(t := Some c)) t' \<noteq> Some (Won r) \<and> (T(t := Some c)) t' \<noteq> Some (Lost r)"
    proof (cases "t' = t")
      case True
      have "c \<noteq> Lost r"
      proof
        assume "c = Lost r"
        with c have "GetLockWord s f = FromForwardingAddress r" by simp
        with fwd [of r] nf show False by simp
      qed
      with True nw show ?thesis by simp
    next
      case False
      with i1 [OF nf, of t' r] i2 [OF nf, of t' r] show ?thesis by simp
    qed
  qed
  have p2: "GetState (GetLockWord s f) = kForwardingAddress \<longrightarrow>
            (\<exists>w r. (T(t := Some c)) w = Some (Won r))"
  proof
    assume "GetState (GetLockWord s f) = kForwardingAddress"
    from i3 [OF this] obtain w r where w: "T w = Some (Won r)" by blast
    with old have "w \<noteq> t" by blast
    with w have "(T(t := Some c)) w = Some (Won r)" by simp
    then show "\<exists>w r. (T(t := Some c)) w = Some (Won r)" by blast
  qed
  have p3: "\<forall>t' r. (T(t := Some c)) t' = Some (Won r) \<or> (T(t := Some c)) t' = Some (Lost r) \<longrightarrow>
              GetLockWord s f = FromForwardingAddress r"
  proof (intro allI impI)
    fix t' r
    assume h: "(T(t := Some c)) t' = Some (Won r) \<or> (T(t := Some c)) t' = Some (Lost r)"
    show "GetLockWord s f = FromForwardingAddress r"
    proof (cases "t' = t")
      case True
      with h nw have "c = Lost r" by auto
      with c show ?thesis by simp
    next
      case False
      with h have "T t' = Some (Won r) \<or> T t' = Some (Lost r)" by simp
      with i4 i5 show ?thesis by blast
    qed
  qed
  have p4: "\<forall>t1 t2 r r'. (T(t := Some c)) t1 = Some (Won r) \<and>
              (T(t := Some c)) t2 = Some (Won r') \<longrightarrow> t1 = t2"
  proof (intro allI impI)
    fix t1 t2 r r'
    assume h: "(T(t := Some c)) t1 = Some (Won r) \<and> (T(t := Some c)) t2 = Some (Won r')"
    with nw have "t1 \<noteq> t" "t2 \<noteq> t" by (auto split: if_splits)
    with h have "T t1 = Some (Won r)" "T t2 = Some (Won r')" by simp_all
    from i6 [OF this] show "t1 = t2" .
  qed
  have p5: "\<forall>t' L. (T(t := Some c)) t' = Some (Running L) \<longrightarrow>
              from_ref L = f \<and> to_ref L \<noteq> f \<and> obj_size L \<noteq> 0"
  proof (intro allI impI)
    fix t' L assume h: "(T(t := Some c)) t' = Some (Running L)"
    show "from_ref L = f \<and> to_ref L \<noteq> f \<and> obj_size L \<noteq> 0"
    proof (cases "t' = t")
      case True
      with h have "c = Running L" by simp
      with c show ?thesis by simp
    next
      case False
      with h have "T t' = Some (Running L)" by simp
      from i7 [OF this] show ?thesis .
    qed
  qed
  have p6: "\<forall>t' L old. (T(t := Some c)) t' = Some (AtCas L old) \<longrightarrow>
              from_ref L = f \<and> to_ref L \<noteq> f \<and> obj_size L \<noteq> 0 \<and>
              GetState old \<noteq> kForwardingAddress"
  proof (intro allI impI)
    fix t' L old assume h: "(T(t := Some c)) t' = Some (AtCas L old)"
    show "from_ref L = f \<and> to_ref L \<noteq> f \<and> obj_size L \<noteq> 0 \<and>
          GetState old \<noteq> kForwardingAddress"
    proof (cases "t' = t")
      case True
      with h have "c = AtCas L old" by simp
      with c show ?thesis by simp
    next
      case False
      with h have "T t' = Some (AtCas L old)" by simp
      from i8 [OF this] show ?thesis .
    qed
  qed
  from p1 p2 p3 p4 p5 p6 show ?thesis
    unfolding race_inv_def lw by (intro conjI)
qed

lemma race_inv_wins:
  assumes inv: "race_inv f T s"
    and nf: "GetState (GetLockWord s f) \<noteq> kForwardingAddress"
    and lw: "GetLockWord s' f = FromForwardingAddress r"
  shows "race_inv f (T(t := Some (Won r))) s'"
proof -
  note i1 = race_invD(1) [OF inv nf] and i2 = race_invD(2) [OF inv nf]
    and i7 = race_invD(7) [OF inv] and i8 = race_invD(8) [OF inv]
  have fwd: "GetState (GetLockWord s' f) = kForwardingAddress"
    unfolding lw by (simp add: FromForwardingAddress_def)
  have won: "\<And>t' r'. (T(t := Some (Won r))) t' = Some (Won r') \<Longrightarrow> t' = t \<and> r' = r"
  proof -
    fix t' r' assume h: "(T(t := Some (Won r))) t' = Some (Won r')"
    show "t' = t \<and> r' = r"
    proof (cases "t' = t")
      case True
      with h show ?thesis by simp
    next
      case False
      with h i1 [of t' r'] show ?thesis by simp
    qed
  qed
  have lost: "\<And>t' r'. (T(t := Some (Won r))) t' \<noteq> Some (Lost r')"
  proof -
    fix t' r' show "(T(t := Some (Won r))) t' \<noteq> Some (Lost r')"
      using i2 [of t' r'] by (cases "t' = t") simp_all
  qed
  have p1: "GetState (GetLockWord s' f) \<noteq> kForwardingAddress \<longrightarrow>
         (\<forall>t' r'. (T(t := Some (Won r))) t' \<noteq> Some (Won r') \<and>
                  (T(t := Some (Won r))) t' \<noteq> Some (Lost r'))"
    using fwd by simp
  have p2: "GetState (GetLockWord s' f) = kForwardingAddress \<longrightarrow>
            (\<exists>w r'. (T(t := Some (Won r))) w = Some (Won r'))"
    by (intro impI exI [of _ t] exI [of _ r]) simp
  have p3: "\<forall>t' r'. (T(t := Some (Won r))) t' = Some (Won r') \<or>
                    (T(t := Some (Won r))) t' = Some (Lost r') \<longrightarrow>
              GetLockWord s' f = FromForwardingAddress r'"
    using won lost lw by blast
  have p4: "\<forall>t1 t2 r1 r2. (T(t := Some (Won r))) t1 = Some (Won r1) \<and>
              (T(t := Some (Won r))) t2 = Some (Won r2) \<longrightarrow> t1 = t2"
    using won by blast
  have p5: "\<forall>t' L. (T(t := Some (Won r))) t' = Some (Running L) \<longrightarrow>
              from_ref L = f \<and> to_ref L \<noteq> f \<and> obj_size L \<noteq> 0"
  proof (intro allI impI)
    fix t' L assume h: "(T(t := Some (Won r))) t' = Some (Running L)"
    then have "t' \<noteq> t" by (auto split: if_splits)
    with h have "T t' = Some (Running L)" by simp
    from i7 [OF this] show "from_ref L = f \<and> to_ref L \<noteq> f \<and> obj_size L \<noteq> 0" .
  qed
  have p6: "\<forall>t' L old. (T(t := Some (Won r))) t' = Some (AtCas L old) \<longrightarrow>
              from_ref L = f \<and> to_ref L \<noteq> f \<and> obj_size L \<noteq> 0 \<and>
              GetState old \<noteq> kForwardingAddress"
  proof (intro allI impI)
    fix t' L old assume h: "(T(t := Some (Won r))) t' = Some (AtCas L old)"
    then have "t' \<noteq> t" by (auto split: if_splits)
    with h have "T t' = Some (AtCas L old)" by simp
    from i8 [OF this] show "from_ref L = f \<and> to_ref L \<noteq> f \<and> obj_size L \<noteq> 0 \<and>
          GetState old \<noteq> kForwardingAddress" .
  qed
  from p1 p2 p3 p4 p5 p6 show ?thesis
    unfolding race_inv_def by (intro conjI)
qed

lemma race_inv_lock_word_written:
  assumes inv: "race_inv f T s"
    and nf: "GetState (GetLockWord s f) \<noteq> kForwardingAddress"
    and nf': "GetState (GetLockWord s' f) \<noteq> kForwardingAddress"
  shows "race_inv f T s'"
proof -
  note i1 = race_invD(1) [OF inv nf] and i2 = race_invD(2) [OF inv nf]
    and i7 = race_invD(7) [OF inv] and i8 = race_invD(8) [OF inv]
  show ?thesis
    unfolding race_inv_def using nf' i1 i2 i7 i8 by blast
qed

lemma race_step_inv:
  assumes "race_step K M f (T, s) (T', s')" and "Mark_keeps_forwarding_address M f"
    and "race_inv f T s"
  shows "race_inv f T' s'"
proof -
  note i7 = race_invD(7) [OF assms(3)] and i8 = race_invD(8) [OF assms(3)]
  from assms(1) show ?thesis
  proof (cases rule: race_step.cases)
    case (loses t L r)
    from i7 [OF loses(2)] have L: "from_ref L = f" "to_ref L \<noteq> f" "obj_size L \<noteq> 0" by auto
    from Copy_before_cas_Returns_keeps [OF loses(3) assms(2) L] have
      a: "GetLockWord s f = FromForwardingAddress r"
         "GetLockWord s' f = GetLockWord s f" by blast+
    have o: "\<And>r'. T t \<noteq> Some (Won r')" using loses(2) by simp
    show ?thesis unfolding loses(1)
      by (rule race_inv_update [OF assms(3) a(2) o]) (simp add: a(1))
  next
    case (attempts t L old)
    from i7 [OF attempts(2)] have L: "from_ref L = f" "to_ref L \<noteq> f" "obj_size L \<noteq> 0" by auto
    from Copy_before_cas_Attempts_leaves [OF attempts(3) L] have
      a: "GetState old \<noteq> kForwardingAddress" "GetLockWord s' f = GetLockWord s f" by blast+
    have o: "\<And>r'. T t \<noteq> Some (Won r')" using attempts(2) by simp
    show ?thesis unfolding attempts(1)
      by (rule race_inv_update [OF assms(3) a(2) o]) (simp add: a(1) L)
  next
    case (wins t L old spurious r s3)
    from i8 [OF wins(2)] have L: "from_ref L = f" "GetState old \<noteq> kForwardingAddress" by auto
    from Copy_cas_wins_leaves [OF wins(3) L(1)] have
      a: "GetLockWord s f = old" "GetLockWord s' f = FromForwardingAddress r" by blast+
    from a(1) L(2) have nf: "GetState (GetLockWord s f) \<noteq> kForwardingAddress" by simp
    show ?thesis unfolding wins(1)
      by (rule race_inv_wins [OF assms(3) nf a(2)])
  next
    case (retries t L old spurious)
    from Copy_cas_None [OF retries(3)] have a: "s' = s" by simp
    from i8 [OF retries(2)] have L: "from_ref L = f" "to_ref L \<noteq> f" "obj_size L \<noteq> 0" by auto
    have o: "\<And>r'. T t \<noteq> Some (Won r')" using retries(2) by simp
    show ?thesis unfolding retries(1) a
      by (rule race_inv_update [OF assms(3) refl o]) (simp add: L)
  next
    case (lock_word_written lw)
    have l: "GetLockWord s' f = lw"
      unfolding lock_word_written(2) by (simp add: GetLockWord_def)
    show ?thesis unfolding lock_word_written(1)
      by (rule race_inv_lock_word_written [OF assms(3) lock_word_written(3)])
         (simp add: l lock_word_written(4))
  qed
qed

lemma race_inv_reachable:
  assumes "(race_step K M f)\<^sup>*\<^sup>* (T, s) (T', s')" and "Mark_keeps_forwarding_address M f"
    and "race_inv f T s"
  shows "race_inv f T' s'"
  using assms(1,3)
proof (induction rule: rtranclp_induct2)
  case refl
  then show ?case .
next
  case (step T1 s1 T2 s2)
  from race_step_inv [OF step(2) assms(2) step(3) [OF step(4)]] show ?case .
qed

lemma multimap_insert_simps:
  "multimap_insert [] e = [e]"
  "multimap_insert (x # xs) e =
     (if fst x \<le> fst e then x # multimap_insert xs e else e # x # xs)"
  by (simp_all add: multimap_insert_def case_prod_beta)

lemma set_multimap_insert: "set (multimap_insert m e) = insert e (set m)"
  by (induction m) (auto simp: multimap_insert_simps)

lemma length_multimap_insert: "length (multimap_insert m e) = Suc (length m)"
  by (induction m) (simp_all add: multimap_insert_simps)

lemma sorted_multimap_insert:
  "sorted (map fst m) \<Longrightarrow> sorted (map fst (multimap_insert m e))"
proof (induction m)
  case Nil
  show ?case by (simp add: multimap_insert_simps)
next
  case (Cons x xs)
  from Cons.prems have s: "sorted (map fst xs)" and le: "\<forall>y\<in>set xs. fst x \<le> fst y"
    by simp_all
  show ?case
  proof (cases "fst x \<le> fst e")
    case True
    with Cons.IH [OF s] le show ?thesis
      by (simp add: multimap_insert_simps set_multimap_insert)
  next
    case False
    with Cons.prems le show ?thesis
      by (auto simp: multimap_insert_simps)
  qed
qed

lemma recycled_facts:
  "(\<not> fall_back_to_non_moving L \<and> kRegionSize K < bytes_allocated L \<longrightarrow>
      region_space_FreeLarge (recycled K L s1) =
        region_space_FreeLarge s1 @ [(to_ref L, bytes_allocated L)] \<and>
      skipped_blocks_map (recycled K L s1) = skipped_blocks_map s1 \<and>
      non_moving_space_Free (recycled K L s1) = non_moving_space_Free s1) \<and>
   (\<not> fall_back_to_non_moving L \<and> bytes_allocated L \<le> kRegionSize K \<longrightarrow>
      set (skipped_blocks_map (recycled K L s1)) =
        insert (bytes_allocated L, to_ref L) (set (skipped_blocks_map s1)) \<and>
      length (skipped_blocks_map (recycled K L s1)) = Suc (length (skipped_blocks_map s1)) \<and>
      (sorted (map fst (skipped_blocks_map s1)) \<longrightarrow>
         sorted (map fst (skipped_blocks_map (recycled K L s1)))) \<and>
      to_space_bytes_skipped (recycled K L s1) =
        to_space_bytes_skipped s1 + of_nat (bytes_allocated L) \<and>
      to_space_objects_skipped (recycled K L s1) = to_space_objects_skipped s1 + 1 \<and>
      region_space_FreeLarge (recycled K L s1) = region_space_FreeLarge s1 \<and>
      non_moving_space_Free (recycled K L s1) = non_moving_space_Free s1) \<and>
   (fall_back_to_non_moving L \<longrightarrow>
      \<not> mark_bitmap (recycled K L s1) (to_ref L) \<and>
      non_moving_space_Free (recycled K L s1) = non_moving_space_Free s1 @ [to_ref L] \<and>
      skipped_blocks_map (recycled K L s1) = skipped_blocks_map s1 \<and>
      region_space_FreeLarge (recycled K L s1) = region_space_FreeLarge s1) \<and>
   heap (recycled K L s1) = heap s1"
  by (simp add: recycled_def set_multimap_insert length_multimap_insert sorted_multimap_insert)

lemma Copy_before_cas_Attempts_counters:
  "Copy_before_cas K M self L s = AttemptsCas old s1 \<Longrightarrow>
     objects_moved s1 = objects_moved s \<and> bytes_moved s1 = bytes_moved s"
  by (auto simp: Copy_before_cas_def Let_def memcpy_def SetReadBarrierPointer_def
           split: if_splits)

text \<open>
  C2. \<open>Copy\<close> leaves its loop without a CAS only when the lock word it read is a
  forwarding address, and then it runs the lost-race path.  When that path returns, the
  result is the forwarding address installed by the winner; the block the loser had
  allocated holds a dummy object of the allocated size (of class \<^verbatim>\<open>java.lang.Object\<close> or an
  array) and has been given back: a block larger than a region to \<^verbatim>\<open>FreeLarge\<close>, any other
  region-space block into the skipped-blocks map (one more entry, the map still ordered by
  size, the skipped counters increased), a non-moving-space block to \<^verbatim>\<open>Free\<close> after its mark
  bit, which was set, has been cleared.  The lost-race path does not increment
  \<^verbatim>\<open>objects_moved_\<close> or \<^verbatim>\<open>bytes_moved_\<close>: they are as the \<open>Mark\<close> of the int array class, which
  may itself copy that class, has left them.  The two counters are incremented by the
  successful compare-and-set and by no other step of the loop.

  For any number of callers racing on one object, under any interleaving of their steps
  with mutator writes of the lock word, provided that \<open>Mark\<close> does not touch the lock word of
  an object that holds a forwarding address: at most one caller wins, so the object is
  counted as moved at most once; every caller that has returned, winner or loser, has got
  the reference in the forwarding address of the object, and then exactly one caller has
  won; so all callers get the same reference.
\<close>

theorem Copy_lost_race_and_racing_callers:
  "(\<forall>x. Copy_before_cas K Mark self L s = Returns x \<longrightarrow>
      GetState (GetLockWord (memcpy s (to_ref L) (from_ref L) (obj_size L)) (to_ref L))
        = kForwardingAddress \<and>
      x = Copy_lost_race K Mark self L
            (GetLockWord (memcpy s (to_ref L) (from_ref L) (obj_size L)) (to_ref L))
            (memcpy s (to_ref L) (from_ref L) (obj_size L))) \<and>
   (\<forall>old r s'. Copy_lost_race K Mark self L old s = Inr (r, s') \<longrightarrow>
      r = ForwardingAddress old \<and>
      (\<exists>s1 int_array_class s3.
          FillWithDummyObject K Mark self s (to_ref L) (bytes_allocated L) = Inr s1 \<and>
          SizeOf K s1 (to_ref L) = bytes_allocated L \<and>
          (klass (heap s1 (to_ref L)) = java_lang_Object s1 \<or>
           IsArrayClass (classes s1 (klass (heap s1 (to_ref L))))) \<and>
          heap s' = heap s1 \<and>
          Mark True self (IntArray_GetArrayClass s)
            (memset0 (snd (ScopedGcGraysImmuneObjects_enter K self s)) (to_ref L)
               (bytes_allocated L)) = Inr (int_array_class, s3) \<and>
          objects_moved s' = objects_moved s3 \<and> bytes_moved s' = bytes_moved s3 \<and>
          (\<not> fall_back_to_non_moving L \<and> kRegionSize K < bytes_allocated L \<longrightarrow>
             region_space_FreeLarge s' =
               region_space_FreeLarge s1 @ [(to_ref L, bytes_allocated L)] \<and>
             skipped_blocks_map s' = skipped_blocks_map s1 \<and>
             non_moving_space_Free s' = non_moving_space_Free s1) \<and>
          (\<not> fall_back_to_non_moving L \<and> bytes_allocated L \<le> kRegionSize K \<longrightarrow>
             set (skipped_blocks_map s') =
               insert (bytes_allocated L, to_ref L) (set (skipped_blocks_map s1)) \<and>
             length (skipped_blocks_map s') = Suc (length (skipped_blocks_map s1)) \<and>
             (sorted (map fst (skipped_blocks_map s1)) \<longrightarrow>
                sorted (map fst (skipped_blocks_map s'))) \<and>
             to_space_bytes_skipped s' =
               to_space_bytes_skipped s1 + of_nat (bytes_allocated L) \<and>
             to_space_objects_skipped s' = to_space_objects_skipped s1 + 1 \<and>
             region_space_FreeLarge s' = region_space_FreeLarge s1 \<and>
             non_moving_space_Free s' = non_moving_space_Free s1) \<and>
          (fall_back_to_non_moving L \<longrightarrow>
             mark_bitmap s1 (to_ref L) \<and> \<not> mark_bitmap s' (to_ref L) \<and>
             non_moving_space_Free s' = non_moving_space_Free s1 @ [to_ref L] \<and>
             skipped_blocks_map s' = skipped_blocks_map s1 \<and>
             region_space_FreeLarge s' = region_space_FreeLarge s1))) \<and>
   (\<forall>spurious old r s' s3.
      Copy_cas K self L spurious old s = (Some (Inr (r, s')), s3) \<longrightarrow>
      r = to_ref L \<and> GetLockWord s (from_ref L) = old \<and>
      GetLockWord s' (from_ref L) = FromForwardingAddress r \<and>
      objects_moved s' = objects_moved s + 1 \<and>
      bytes_moved s' = bytes_moved s + of_nat (region_space_alloc_size L)) \<and>
   (\<forall>spurious old s1. Copy_cas K self L spurious old s = (None, s1) \<longrightarrow> s1 = s) \<and>
   (\<forall>old s1. Copy_before_cas K Mark self L s = AttemptsCas old s1 \<longrightarrow>
      objects_moved s1 = objects_moved s \<and> bytes_moved s1 = bytes_moved s) \<and>
   (\<forall>f T0 T1 s1.
      Mark_keeps_forwarding_address Mark f \<and> race_start f T0 s \<and>
      (race_step K Mark f)\<^sup>*\<^sup>* (T0, s) (T1, s1) \<longrightarrow>
      (\<forall>t t' r r'. T1 t = Some (Won r) \<and> T1 t' = Some (Won r') \<longrightarrow> t = t') \<and>
      (\<forall>t r. T1 t = Some (Won r) \<or> T1 t = Some (Lost r) \<longrightarrow>
          GetLockWord s1 f = FromForwardingAddress r \<and> (\<exists>w. T1 w = Some (Won r))) \<and>
      (\<forall>t t' r r'. (T1 t = Some (Won r) \<or> T1 t = Some (Lost r)) \<and>
                   (T1 t' = Some (Won r') \<or> T1 t' = Some (Lost r')) \<longrightarrow> r = r'))"
proof -
  have c1: "\<forall>x. Copy_before_cas K Mark self L s = Returns x \<longrightarrow>
      GetState (GetLockWord (memcpy s (to_ref L) (from_ref L) (obj_size L)) (to_ref L))
        = kForwardingAddress \<and>
      x = Copy_lost_race K Mark self L
            (GetLockWord (memcpy s (to_ref L) (from_ref L) (obj_size L)) (to_ref L))
            (memcpy s (to_ref L) (from_ref L) (obj_size L))"
    using Copy_before_cas_Returns by blast
  have c2: "\<forall>old r s'. Copy_lost_race K Mark self L old s = Inr (r, s') \<longrightarrow>
      r = ForwardingAddress old \<and>
      (\<exists>s1 int_array_class s3.
          FillWithDummyObject K Mark self s (to_ref L) (bytes_allocated L) = Inr s1 \<and>
          SizeOf K s1 (to_ref L) = bytes_allocated L \<and>
          (klass (heap s1 (to_ref L)) = java_lang_Object s1 \<or>
           IsArrayClass (classes s1 (klass (heap s1 (to_ref L))))) \<and>
          heap s' = heap s1 \<and>
          Mark True self (IntArray_GetArrayClass s)
            (memset0 (snd (ScopedGcGraysImmuneObjects_enter K self s)) (to_ref L)
               (bytes_allocated L)) = Inr (int_array_class, s3) \<and>
          objects_moved s' = objects_moved s3 \<and> bytes_moved s' = bytes_moved s3 \<and>
          (\<not> fall_back_to_non_moving L \<and> kRegionSize K < bytes_allocated L \<longrightarrow>
             region_space_FreeLarge s' =
               region_space_FreeLarge s1 @ [(to_ref L, bytes_allocated L)] \<and>
             skipped_blocks_map s' = skipped_blocks_map s1 \<and>
             non_moving_space_Free s' = non_moving_space_Free s1) \<and>
          (\<not> fall_back_to_non_moving L \<and> bytes_allocated L \<le> kRegionSize K \<longrightarrow>
             set (skipped_blocks_map s') =
               insert (bytes_allocated L, to_ref L) (set (skipped_blocks_map s1)) \<and>
             length (skipped_blocks_map s') = Suc (length (skipped_blocks_map s1)) \<and>
             (sorted (map fst (skipped_blocks_map s1)) \<longrightarrow>
                sorted (map fst (skipped_blocks_map s'))) \<and>
             to_space_bytes_skipped s' =
               to_space_bytes_skipped s1 + of_nat (bytes_allocated L) \<and>
             to_space_objects_skipped s' = to_space_objects_skipped s1 + 1 \<and>
             region_space_FreeLarge s' = region_space_FreeLarge s1 \<and>
             non_moving_space_Free s' = non_moving_space_Free s1) \<and>
          (fall_back_to_non_moving L \<longrightarrow>
             mark_bitmap s1 (to_ref L) \<and> \<not> mark_bitmap s' (to_ref L) \<and>
             non_moving_space_Free s' = non_moving_space_Free s1 @ [to_ref L] \<and>
             skipped_blocks_map s' = skipped_blocks_map s1 \<and>
             region_space_FreeLarge s' = region_space_FreeLarge s1))"
  proof (intro allI impI)
    fix old r s' assume h: "Copy_lost_race K Mark self L old s = Inr (r, s')"
    from Copy_lost_race_Inr [OF h] obtain s1 where
      fill: "FillWithDummyObject K Mark self s (to_ref L) (bytes_allocated L) = Inr s1" and
      s': "s' = recycled K L s1" and r: "r = ForwardingAddress old" and
      mb: "fall_back_to_non_moving L \<longrightarrow> mark_bitmap s1 (to_ref L)" by blast
    from FillWithDummyObject_shape [OF fill] obtain iac s3 h' g where
      m: "Mark True self (IntArray_GetArrayClass s)
            (memset0 (snd (ScopedGcGraysImmuneObjects_enter K self s)) (to_ref L)
               (bytes_allocated L)) = Inr (iac, s3)" and
      s1: "s1 = s3\<lparr>heap := h', gc_grays_immune_objects := g\<rparr>" by blast
    from s1 s' have cnt: "objects_moved s' = objects_moved s3" "bytes_moved s' = bytes_moved s3"
      by (simp_all add: recycled_def)
    note d = FillWithDummyObject_Inr_dummy [OF fill]
    note rf = recycled_facts [of L K s1, folded s']
    show "r = ForwardingAddress old \<and>
      (\<exists>s1 int_array_class s3.
          FillWithDummyObject K Mark self s (to_ref L) (bytes_allocated L) = Inr s1 \<and>
          SizeOf K s1 (to_ref L) = bytes_allocated L \<and>
          (klass (heap s1 (to_ref L)) = java_lang_Object s1 \<or>
           IsArrayClass (classes s1 (klass (heap s1 (to_ref L))))) \<and>
          heap s' = heap s1 \<and>
          Mark True self (IntArray_GetArrayClass s)
            (memset0 (snd (ScopedGcGraysImmuneObjects_enter K self s)) (to_ref L)
               (bytes_allocated L)) = Inr (int_array_class, s3) \<and>
          objects_moved s' = objects_moved s3 \<and> bytes_moved s' = bytes_moved s3 \<and>
          (\<not> fall_back_to_non_moving L \<and> kRegionSize K < bytes_allocated L \<longrightarrow>
             region_space_FreeLarge s' =
               region_space_FreeLarge s1 @ [(to_ref L, bytes_allocated L)] \<and>
             skipped_blocks_map s' = skipped_blocks_map s1 \<and>
             non_moving_space_Free s' = non_moving_space_Free s1) \<and>
          (\<not> fall_back_to_non_moving L \<and> bytes_allocated L \<le> kRegionSize K \<longrightarrow>
             set (skipped_blocks_map s') =
               insert (bytes_allocated L, to_ref L) (set (skipped_blocks_map s1)) \<and>
             length (skipped_blocks_map s') = Suc (length (skipped_blocks_map s1)) \<and>
             (sorted (map fst (skipped_blocks_map s1)) \<longrightarrow>
                sorted (map fst (skipped_blocks_map s'))) \<and>
             to_space_bytes_skipped s' =
               to_space_bytes_skipped s1 + of_nat (bytes_allocated L) \<and>
             to_space_objects_skipped s' = to_space_objects_skipped s1 + 1 \<and>
             region_space_FreeLarge s' = region_space_FreeLarge s1 \<and>
             non_moving_space_Free s' = non_moving_space_Free s1) \<and>
          (fall_back_to_non_moving L \<longrightarrow>
             mark_bitmap s1 (to_ref L) \<and> \<not> mark_bitmap s' (to_ref L) \<and>
             non_moving_space_Free s' = non_moving_space_Free s1 @ [to_ref L] \<and>
             skipped_blocks_map s' = skipped_blocks_map s1 \<and>
             region_space_FreeLarge s' = region_space_FreeLarge s1))"
      apply (rule conjI [OF r])
      apply (rule exI [of _ s1], rule exI [of _ iac], rule exI [of _ s3])
      using fill d m cnt mb rf by blast
  qed
  have c3: "\<forall>spurious old r s' s3.
      Copy_cas K self L spurious old s = (Some (Inr (r, s')), s3) \<longrightarrow>
      r = to_ref L \<and> GetLockWord s (from_ref L) = old \<and>
      GetLockWord s' (from_ref L) = FromForwardingAddress r \<and>
      objects_moved s' = objects_moved s + 1 \<and>
      bytes_moved s' = bytes_moved s + of_nat (region_space_alloc_size L)"
    using Copy_cas_wins_leaves [OF _ refl] by blast
  have c4: "\<forall>spurious old s1. Copy_cas K self L spurious old s = (None, s1) \<longrightarrow> s1 = s"
    using Copy_cas_None by blast
  have c5: "\<forall>old s1. Copy_before_cas K Mark self L s = AttemptsCas old s1 \<longrightarrow>
      objects_moved s1 = objects_moved s \<and> bytes_moved s1 = bytes_moved s"
    using Copy_before_cas_Attempts_counters by blast
  have c6: "\<forall>f T0 T1 s1.
      Mark_keeps_forwarding_address Mark f \<and> race_start f T0 s \<and>
      (race_step K Mark f)\<^sup>*\<^sup>* (T0, s) (T1, s1) \<longrightarrow>
      (\<forall>t t' r r'. T1 t = Some (Won r) \<and> T1 t' = Some (Won r') \<longrightarrow> t = t') \<and>
      (\<forall>t r. T1 t = Some (Won r) \<or> T1 t = Some (Lost r) \<longrightarrow>
          GetLockWord s1 f = FromForwardingAddress r \<and> (\<exists>w. T1 w = Some (Won r))) \<and>
      (\<forall>t t' r r'. (T1 t = Some (Won r) \<or> T1 t = Some (Lost r)) \<and>
                   (T1 t' = Some (Won r') \<or> T1 t' = Some (Lost r')) \<longrightarrow> r = r')"
  proof (intro allI impI)
    fix f T0 T1 s1
    assume h: "Mark_keeps_forwarding_address Mark f \<and> race_start f T0 s \<and>
      (race_step K Mark f)\<^sup>*\<^sup>* (T0, s) (T1, s1)"
    then have inv: "race_inv f T1 s1"
      using race_inv_reachable race_start_inv by blast
    have one: "\<forall>t t' r r'. T1 t = Some (Won r) \<and> T1 t' = Some (Won r') \<longrightarrow> t = t'"
      using race_invD(6) [OF inv] by blast
    have lw: "GetLockWord s1 f = FromForwardingAddress r"
      if "T1 t = Some (Won r) \<or> T1 t = Some (Lost r)" for t r
      using that race_invD(4) [OF inv, of t r] race_invD(5) [OF inv, of t r] by blast
    have same: "r = r'"
      if "T1 t = Some (Won r) \<or> T1 t = Some (Lost r)"
        and "T1 t' = Some (Won r') \<or> T1 t' = Some (Lost r')" for t t' r r'
    proof -
      from lw [OF that(1)] lw [OF that(2)]
      have "FromForwardingAddress r = FromForwardingAddress r'" by simp
      then show ?thesis by (simp add: FromForwardingAddress_def)
    qed
    have winner: "\<exists>w. T1 w = Some (Won r)"
      if "T1 t = Some (Won r) \<or> T1 t = Some (Lost r)" for t r
    proof -
      from lw [OF that] have "GetState (GetLockWord s1 f) = kForwardingAddress"
        by (simp add: FromForwardingAddress_def)
      from race_invD(3) [OF inv this] obtain w r' where w: "T1 w = Some (Won r')" by blast
      with same [OF that, of w r'] show ?thesis by blast
    qed
    from one lw winner same
    show "(\<forall>t t' r r'. T1 t = Some (Won r) \<and> T1 t' = Some (Won r') \<longrightarrow> t = t') \<and>
      (\<forall>t r. T1 t = Some (Won r) \<or> T1 t = Some (Lost r) \<longrightarrow>
          GetLockWord s1 f = FromForwardingAddress r \<and> (\<exists>w. T1 w = Some (Won r))) \<and>
      (\<forall>t t' r r'. (T1 t = Some (Won r) \<or> T1 t = Some (Lost r)) \<and>
                   (T1 t' = Some (Won r') \<or> T1 t' = Some (Lost r')) \<longrightarrow> r = r')"
      by blast
  qed
  show ?thesis by (intro conjI) (rule c1 c2 c3 c4 c5 c6)+
qed

lemma Copy_before_cas_Attempts_keeps:
  "Copy_before_cas K M self L s = AttemptsCas old s1 \<Longrightarrow> to_ref L \<noteq> x \<Longrightarrow>
     GetLockWord s1 x = GetLockWord s x"
  by (auto simp: Copy_before_cas_def Let_def memcpy_def GetLockWord_def SetReadBarrierPointer_def
           split: if_splits)

lemma Copy_cas_keeps:
  assumes "Copy_cas K self L sp old s = (Some (Inr (r, s')), s3)" and "from_ref L \<noteq> x"
  shows "GetLockWord s' x = GetLockWord s x"
proof -
  from Copy_cas_Some [OF assms(1)] have
    s3: "s3 = cas_installed L s" and push: "PushOntoMarkStack K self s3 (to_ref L) = Inr s'"
    by auto
  from PushOntoMarkStack_frame [OF push] obtain a b c d where
    "s' = s3\<lparr>gc_mark_stack := a, pooled_mark_stacks := b,
            revoked_mark_stacks := c, thread_local_mark_stack := d\<rparr>" by blast
  with s3 assms(2) show ?thesis
    by (simp add: cas_installed_def GetLockWord_def)
qed

lemma interfere_keeps: "y \<noteq> x \<Longrightarrow> GetLockWord (interfere e y s) x = GetLockWord s x"
  by (cases e) (simp_all add: interfere_def GetLockWord_def)

lemma Copy_loop_keeps:
  assumes "Mark_keeps_forwarding_address M x" and "from_ref L \<noteq> x" and "to_ref L \<noteq> x"
  shows "Copy_loop K M self L sched s = Inr (r, s') \<Longrightarrow>
         GetState (GetLockWord s x) = kForwardingAddress \<Longrightarrow>
         GetLockWord s' x = GetLockWord s x"
proof (induction sched arbitrary: s)
  case Nil
  show ?case
  proof (cases "Copy_before_cas K M self L s")
    case (Returns y)
    let ?s1 = "memcpy s (to_ref L) (from_ref L) (obj_size L)"
    from Returns Nil(1) have y: "y = Inr (r, s')" by simp
    from Copy_before_cas_Returns [OF Returns] y have
      lr: "Copy_lost_race K M self L (GetLockWord ?s1 (to_ref L)) ?s1 = Inr (r, s')" by simp
    have m: "GetLockWord ?s1 x = GetLockWord s x"
      using assms(3) by (simp add: memcpy_def GetLockWord_def)
    with Nil(2) have "GetState (GetLockWord ?s1 x) = kForwardingAddress" by simp
    from Copy_lost_race_keeps [OF lr assms(1,3) this] m show ?thesis by simp
  next
    case (AttemptsCas old s1)
    from Nil(1) AttemptsCas obtain s3 where
      c: "Copy_cas K self L False old s1 = (Some (Inr (r, s')), s3)"
      by (auto split: prod.splits option.splits)
    from Copy_cas_keeps [OF c assms(2)] Copy_before_cas_Attempts_keeps [OF AttemptsCas assms(3)]
    show ?thesis by simp
  qed
next
  case (Cons e es)
  show ?case
  proof (cases "Copy_before_cas K M self L s")
    case (Returns y)
    let ?s1 = "memcpy s (to_ref L) (from_ref L) (obj_size L)"
    from Returns Cons(2) have y: "y = Inr (r, s')" by simp
    from Copy_before_cas_Returns [OF Returns] y have
      lr: "Copy_lost_race K M self L (GetLockWord ?s1 (to_ref L)) ?s1 = Inr (r, s')" by simp
    have m: "GetLockWord ?s1 x = GetLockWord s x"
      using assms(3) by (simp add: memcpy_def GetLockWord_def)
    with Cons(3) have "GetState (GetLockWord ?s1 x) = kForwardingAddress" by simp
    from Copy_lost_race_keeps [OF lr assms(1,3) this] m show ?thesis by simp
  next
    case (AttemptsCas old s1)
    let ?s2 = "interfere e (from_ref L) s1"
    have k: "GetLockWord ?s2 x = GetLockWord s x"
      using interfere_keeps [OF assms(2), of e s1]
        Copy_before_cas_Attempts_keeps [OF AttemptsCas assms(3)] by simp
    show ?thesis
    proof (cases "Copy_cas K self L (e = SpuriousFailure) old ?s2")
      case (Pair o' s3)
      show ?thesis
      proof (cases o')
        case None
        with Pair Copy_cas_None have s3: "s3 = ?s2" by blast
        from Cons(2) AttemptsCas Pair None have "Copy_loop K M self L es s3 = Inr (r, s')"
          by simp
        from Cons.IH [OF this] k s3 Cons(3) show ?thesis by simp
      next
        case (Some rr)
        with Cons(2) AttemptsCas Pair have "rr = Inr (r, s')" by simp
        with Pair Some have
          "Copy_cas K self L (e = SpuriousFailure) old ?s2 = (Some (Inr (r, s')), s3)" by simp
        from Copy_cas_keeps [OF this assms(2)] k show ?thesis by simp
      qed
    qed
  qed
qed

lemma Copy_allocate_in_region:
  assumes "Copy_allocate K M A self s r = Inr (L, s1)"
    and "\<forall>n. fst (AllocNonvirtual A n) = b" and "b \<noteq> 0"
  shows "s1 = s \<and> to_ref L = b \<and> from_ref L = r"
proof -
  obtain n where a: "AllocNonvirtual A (RoundUp (SizeOf K s r) (kAlignment K)) = (b, n)"
    using assms(2) by (metis prod.collapse)
  with assms(1,3) show ?thesis
    by (auto simp: Copy_allocate_def Let_def DCHECK_Inr_iff and_then_Inr_iff)
qed

lemma Copy_keeps:
  assumes "Copy K M A sched self s r = Inr (r', s')"
    and "\<forall>n. fst (AllocNonvirtual A n) = b" and "b \<noteq> 0" and "b \<noteq> x" and "r \<noteq> x"
    and "Mark_keeps_forwarding_address M x"
    and "GetState (GetLockWord s x) = kForwardingAddress"
  shows "GetLockWord s' x = GetLockWord s x"
proof -
  from assms(1) obtain L s1 where
    a: "Copy_allocate K M A self s r = Inr (L, s1)" and
    l: "Copy_loop K M self L sched s1 = Inr (r', s')"
    by (auto simp: Copy_def and_then_Inr_iff)
  from Copy_allocate_in_region [OF a assms(2,3)] have
    L: "s1 = s" "to_ref L = b" "from_ref L = r" by simp_all
  from L assms(4,5) have ne: "from_ref L \<noteq> x" "to_ref L \<noteq> x" by simp_all
  from Copy_loop_keeps [OF assms(6) ne l] assms(7) L(1) show ?thesis by simp
qed

lemma Mark_immune_keeps: "Mark_keeps_forwarding_address Mark_immune x"
  by (simp add: Mark_keeps_forwarding_address_def Mark_immune_def)

lemma Mark_by_Copy_keeps: "Mark_keeps_forwarding_address Mark_by_Copy 1000"
  unfolding Mark_keeps_forwarding_address_def
proof (intro allI impI, elim conjE)
  fix g t r s r' s'
  assume m: "Mark_by_Copy g t r s = Inr (r', s')"
    and f: "GetState (GetLockWord s 1000) = kForwardingAddress"
  show "GetLockWord s' 1000 = GetLockWord s 1000"
  proof (cases "r \<noteq> 0 \<and> IsInFromSpace s r \<and> GetState (GetLockWord s r) \<noteq> kForwardingAddress")
    case True
    with m have c: "Copy build0 Mark_immune A_class [] t s r = Inr (r', s')"
      by (simp add: Mark_by_Copy_def)
    from True f have ne: "r \<noteq> 1000" by auto
    have a: "\<forall>n. fst (AllocNonvirtual A_class n) = 2048" by (simp add: A_class_def)
    from Copy_keeps [OF c a _ _ ne Mark_immune_keeps f] show ?thesis by simp
  next
    case False
    with m have "s' = s" by (auto simp: Mark_by_Copy_def split: if_splits)
    then show ?thesis by simp
  qed
qed

lemma int32_t_small: "n < 2 ^ 31 \<Longrightarrow> int32_t n = int n"
proof -
  assume "n < 2 ^ 31"
  then have "int n < 2 ^ 31" by (metis of_nat_less_iff of_nat_numeral of_nat_power)
  then show ?thesis
    unfolding int32_t_def by (intro signed_take_bit_int_eq_self) simp_all
qed

lemma size_t_small: "0 \<le> i \<Longrightarrow> i < 2 ^ 64 \<Longrightarrow> size_t i = nat i"
  by (simp add: size_t_def)

lemma race_example_1:
  "Copy_before_cas build0 Mark_by_Copy 1 L4 state4 =
     AttemptsCas (LockWord kUnlocked 0) state4_attempted"
  by (simp add: Copy_before_cas_def Let_def L4_def state4_attempted_def memcpy_def GetLockWord_def
        build0_def state4_def state1_def state0_def zeroed_def)

lemma race_example_2:
  "Copy_cas build0 1 L4 False (LockWord kUnlocked 0) state4_attempted =
     (Some (Inr (2000, state4_won)), cas_installed L4 state4_attempted)"
  by (simp add: Copy_cas_def Let_def L4_def state4_won_def state4_attempted_def cas_installed_def
        memcpy_def GetLockWord_def SetReadBarrierPointer_def
        CasLockWordWeakSequentiallyConsistent_def FromForwardingAddress_def DCHECK_def CHECK_def
        and_then_def GetFwdPtr_def region_space_IsInToSpace_def GetReadBarrierPointer_def
        PushOntoMarkStack_def push_gc_mark_stack_def IsFull_def PushBack_def
        build0_def state4_def state1_def state0_def zeroed_def)

lemma race_example_3:
  "case Copy_before_cas build0 Mark_by_Copy 2 L5 state4_won of
     Returns (Inr (r, s')) \<Rightarrow>
       r = 2000 \<and> objects_moved s' = 2 \<and> klass (heap s' 2016) = 2048 \<and>
       array_length (heap s' 2016) = 1 \<and> skipped_blocks_map s' = [(16, 2016)] \<and>
       GetLockWord s' 1016 = FromForwardingAddress 2048
   | _ \<Rightarrow> False"
  by (simp add: Copy_before_cas_def Copy_lost_race_def FillWithDummyObject_def
        ScopedGcGraysImmuneObjects_enter_def ScopedGcGraysImmuneObjects_exit_def memset0_def
        Mark_by_Copy_def Mark_immune_def Copy_def Copy_allocate_def A_class_def Copy_cas_def
        CasLockWordWeakSequentiallyConsistent_def GetFwdPtr_def RoundUp_def
        PushOntoMarkStack_def push_gc_mark_stack_def IsFull_def PushBack_def
        AssertToSpaceInvariant_def AssertToSpaceInvariantInNonMovingSpace_def
        IsInUnevacFromSpace_def IsInFromSpace_def SetClass_def SetLength_def SizeOf_def
        multimap_insert_def int32_t_small size_t_small
        Let_def L5_def L4_def state4_won_def state4_attempted_def cas_installed_def
        memcpy_def GetLockWord_def SetReadBarrierPointer_def
        FromForwardingAddress_def DCHECK_def CHECK_def
        and_then_def region_space_IsInToSpace_def GetReadBarrierPointer_def
        build0_def state4_def state1_def state0_def zeroed_def classes1_def)

lemma racers_start: "race_start 1000 racers state4"
  by (simp add: race_start_def racers_def L4_def L5_def GetLockWord_def state4_def state1_def
        state0_def zeroed_def)

theorem Copy_lost_race_and_racing_callers_witness:
  "Mark_keeps_forwarding_address Mark_by_Copy 1000 \<and> race_start 1000 racers state4 \<and>
   objects_moved state4 = 0 \<and>
   (\<exists>T1 s1. (race_step build0 Mark_by_Copy 1000)\<^sup>*\<^sup>* (racers, state4) (T1, s1) \<and>
      T1 1 = Some (Won 2000) \<and> T1 2 = Some (Lost 2000) \<and>
      GetLockWord s1 1000 = FromForwardingAddress 2000 \<and>
      objects_moved s1 = 2 \<and> GetLockWord s1 1016 = FromForwardingAddress 2048 \<and>
      klass (heap s1 2016) = 2048 \<and> array_length (heap s1 2016) = 1 \<and>
      skipped_blocks_map s1 = [(16, 2016)])"
proof -
  from race_example_3 obtain s3 where
    e3: "Copy_before_cas build0 Mark_by_Copy 2 L5 state4_won = Returns (Inr (2000, s3))"
    and f3: "objects_moved s3 = 2" "klass (heap s3 2016) = 2048"
      "array_length (heap s3 2016) = 1" "skipped_blocks_map s3 = [(16, 2016)]"
      "GetLockWord s3 1016 = FromForwardingAddress 2048"
    by (auto split: before_cas.splits sum.splits)
  let ?T1 = "racers(1 := Some (AtCas L4 (LockWord kUnlocked 0)))"
  let ?T2 = "?T1(1 := Some (Won 2000))"
  let ?T3 = "?T2(2 := Some (Lost 2000))"
  have 1: "race_step build0 Mark_by_Copy 1000 (racers, state4) (?T1, state4_attempted)"
    by (rule race_step.attempts [OF _ race_example_1]) (simp add: racers_def)
  have 2: "race_step build0 Mark_by_Copy 1000 (?T1, state4_attempted) (?T2, state4_won)"
    by (rule race_step.wins [OF _ race_example_2]) simp
  have 3: "race_step build0 Mark_by_Copy 1000 (?T2, state4_won) (?T3, s3)"
    by (rule race_step.loses [OF _ e3]) (simp add: racers_def)
  from 1 2 3 have run:
    "(race_step build0 Mark_by_Copy 1000)\<^sup>*\<^sup>* (racers, state4) (?T3, s3)"
    by (meson rtranclp.rtrancl_into_rtrancl rtranclp.rtrancl_refl)
  have r: "?T3 1 = Some (Won 2000)" "?T3 2 = Some (Lost 2000)" by simp_all
  have z: "objects_moved state4 = 0" by (simp add: state4_def state1_def state0_def)
  from Copy_lost_race_and_racing_callers [of build0 Mark_by_Copy 1 L4 state4,
         THEN conjunct2, THEN conjunct2, THEN conjunct2, THEN conjunct2, THEN conjunct2,
         rule_format, of 1000 racers ?T3 s3,
         THEN conjunct2, THEN conjunct1, rule_format, of 2 2000]
    Mark_by_Copy_keeps racers_start run r
  have "GetLockWord s3 1000 = FromForwardingAddress 2000" by blast
  with Mark_by_Copy_keeps racers_start run r f3 z show ?thesis by blast
qed

subsection \<open>The forwarding update of a field or a root\<close>

lemma mutator_only_simps:
  "mutator_only sl [] s = s"
  "mutator_only sl (v # vs) s = mutator_only sl vs (StoreRelaxed s sl v)"
  "mutator_only sl (vs @ ws) s = mutator_only sl ws (mutator_only sl vs s)"
  by (simp_all add: mutator_only_def)

lemma update_slot_forwarded:
  "\<exists>k\<le>length sched.
     update_slot sl expected_ref new_ref sched s =
       Inr (forwarded sl expected_ref new_ref
              (mutator_only sl (mutator_stores (take k sched)) s))"
proof (induction sched arbitrary: s)
  case Nil
  show ?case
    by (simp add: forwarded_def CompareExchangeWeakRelaxed_def mutator_only_simps)
next
  case (Cons e es)
  let ?s0 = "before_load e sl s"
  let ?s1 = "before_cas e sl ?s0"
  have s1: "?s1 = mutator_only sl (mutator_stores [e]) s"
    by (cases e) (simp_all add: before_load_def before_cas_def mutator_only_simps)
  show ?case
  proof (cases "expected_ref \<noteq> LoadRelaxed ?s0 sl")
    case True
    show ?thesis
    proof (cases e)
      case (StoresBeforeLoad v)
      with True have
        "update_slot sl expected_ref new_ref (e # es) s =
           Inr (forwarded sl expected_ref new_ref
                  (mutator_only sl (mutator_stores (take 1 (e # es))) s))"
        by (auto simp: forwarded_def before_load_def mutator_only_simps)
      then show ?thesis by (intro exI [of _ 1]) simp
    next
      case NoStore
      with True have
        "update_slot sl expected_ref new_ref (e # es) s =
           Inr (forwarded sl expected_ref new_ref
                  (mutator_only sl (mutator_stores (take 0 (e # es))) s))"
        by (auto simp: forwarded_def before_load_def mutator_only_simps)
      then show ?thesis by (intro exI [of _ 0]) simp
    next
      case (StoresBeforeCas v)
      with True have
        "update_slot sl expected_ref new_ref (e # es) s =
           Inr (forwarded sl expected_ref new_ref
                  (mutator_only sl (mutator_stores (take 0 (e # es))) s))"
        by (auto simp: forwarded_def before_load_def mutator_only_simps)
      then show ?thesis by (intro exI [of _ 0]) simp
    next
      case CasFailsSpuriously
      with True have
        "update_slot sl expected_ref new_ref (e # es) s =
           Inr (forwarded sl expected_ref new_ref
                  (mutator_only sl (mutator_stores (take 0 (e # es))) s))"
        by (auto simp: forwarded_def before_load_def mutator_only_simps)
      then show ?thesis by (intro exI [of _ 0]) simp
    qed
  next
    case False
    show ?thesis
    proof (cases "e \<noteq> CasFailsSpuriously \<and> LoadRelaxed ?s1 sl = expected_ref")
      case True
      with False have
        "update_slot sl expected_ref new_ref (e # es) s = Inr (StoreRelaxed ?s1 sl new_ref)"
        by (simp add: CompareExchangeWeakRelaxed_def Let_def)
      with True s1 have
        "update_slot sl expected_ref new_ref (e # es) s =
           Inr (forwarded sl expected_ref new_ref
                  (mutator_only sl (mutator_stores (take 1 (e # es))) s))"
        by (simp add: forwarded_def)
      then show ?thesis by (intro exI [of _ 1]) simp
    next
      case fails: False
      with False have u:
        "update_slot sl expected_ref new_ref (e # es) s =
           update_slot sl expected_ref new_ref es ?s1"
        by (auto simp: CompareExchangeWeakRelaxed_def Let_def)
      from Cons.IH [of ?s1] obtain k where k: "k \<le> length es"
        "update_slot sl expected_ref new_ref es ?s1 =
           Inr (forwarded sl expected_ref new_ref
                  (mutator_only sl (mutator_stores (take k es)) ?s1))"
        by blast
      have "mutator_only sl (mutator_stores (take k es)) ?s1 =
            mutator_only sl (mutator_stores (take (Suc k) (e # es))) s"
        using s1 by (simp add: mutator_only_simps(3) [symmetric] del: mutator_only_simps)
      with u k show ?thesis by (intro exI [of _ "Suc k"]) simp
    qed
  qed
qed

lemma StoreRelaxed_same: "StoreRelaxed s sl (LoadRelaxed s sl) = s"
  by (cases sl) simp_all

lemma forwarded_same: "forwarded sl r r s = s"
  using StoreRelaxed_same [of s sl] by (auto simp: forwarded_def)

lemma forwarding_after_Mark:
  assumes "m = Inr (t, s1)"
  shows "\<exists>k\<le>length sched.
           and_then m
             (\<lambda>(to_ref, s1). if to_ref = r then Inr s1 else update_slot sl r to_ref sched s1) =
           Inr (forwarded sl r t (mutator_only sl (mutator_stores (take k sched)) s1))"
proof (cases "t = r")
  case True
  with assms show ?thesis
    by (intro exI [of _ 0]) (simp add: and_then_def forwarded_same mutator_only_simps)
next
  case False
  from update_slot_forwarded [of sched sl r t s1] obtain k where
    "k \<le> length sched"
    "update_slot sl r t sched s1 =
       Inr (forwarded sl r t (mutator_only sl (mutator_stores (take k sched)) s1))"
    by blast
  with False assms show ?thesis
    by (intro exI [of _ k]) (simp add: and_then_def)
qed

lemma slot_exists_StoreRelaxed [simp]:
  "slot_exists (StoreRelaxed s sl v) sl = slot_exists s sl"
  by (cases sl) simp_all

lemma LoadRelaxed_StoreRelaxed:
  "slot_exists s sl \<Longrightarrow> LoadRelaxed (StoreRelaxed s sl v) sl = v"
  by (cases sl) simp_all

lemma slot_exists_mutator_only [simp]:
  "slot_exists (mutator_only sl vs s) sl = slot_exists s sl"
  by (induction vs arbitrary: s) (simp_all add: mutator_only_simps)

lemma LoadRelaxed_mutator_only:
  "slot_exists s sl \<Longrightarrow> vs \<noteq> [] \<Longrightarrow> LoadRelaxed (mutator_only sl vs s) sl = last vs"
proof (induction vs arbitrary: s)
  case Nil
  then show ?case by simp
next
  case (Cons v vs)
  show ?case
  proof (cases "vs = []")
    case True
    with Cons.prems show ?thesis
      by (simp add: mutator_only_simps LoadRelaxed_StoreRelaxed)
  next
    case False
    with Cons.IH [of "StoreRelaxed s sl v"] Cons.prems show ?thesis
      by (simp add: mutator_only_simps)
  qed
qed

lemma update_slot_exact:
  "slot_exists s sl \<Longrightarrow>
   update_slot sl r n sched s =
     Inr (forwarded sl r n
            (mutator_only sl
               (mutator_stores (take (entries_used r (LoadRelaxed s sl) sched) sched)) s))"
proof (induction sched arbitrary: s)
  case Nil
  show ?case
    by (simp add: forwarded_def CompareExchangeWeakRelaxed_def mutator_only_simps)
next
  case (Cons e es)
  show ?case
  proof (cases e)
    case NoStore
    then show ?thesis
      by (simp add: forwarded_def CompareExchangeWeakRelaxed_def mutator_only_simps
            before_load_def before_cas_def)
  next
    case (StoresBeforeLoad w)
    with Cons.prems show ?thesis
      by (simp add: forwarded_def CompareExchangeWeakRelaxed_def mutator_only_simps
            before_load_def before_cas_def LoadRelaxed_StoreRelaxed)
  next
    case (StoresBeforeCas w)
    show ?thesis
    proof (cases "LoadRelaxed s sl = r \<and> w \<noteq> r")
      case True
      with StoresBeforeCas Cons.prems have
        "update_slot sl r n (e # es) s = update_slot sl r n es (StoreRelaxed s sl w)"
        by (simp add: CompareExchangeWeakRelaxed_def before_load_def before_cas_def
              LoadRelaxed_StoreRelaxed)
      with Cons.IH [of "StoreRelaxed s sl w"] Cons.prems True StoresBeforeCas show ?thesis
        by (simp add: mutator_only_simps LoadRelaxed_StoreRelaxed)
    next
      case False
      with StoresBeforeCas Cons.prems show ?thesis
        by (auto simp: forwarded_def CompareExchangeWeakRelaxed_def mutator_only_simps
              before_load_def before_cas_def LoadRelaxed_StoreRelaxed)
    qed
  next
    case CasFailsSpuriously
    show ?thesis
    proof (cases "LoadRelaxed s sl = r")
      case True
      with CasFailsSpuriously have
        "update_slot sl r n (e # es) s = update_slot sl r n es s"
        by (simp add: CompareExchangeWeakRelaxed_def before_load_def before_cas_def)
      with Cons.IH [of s] Cons.prems True CasFailsSpuriously show ?thesis
        by (simp add: mutator_only_simps)
    next
      case False
      with CasFailsSpuriously show ?thesis
        by (simp add: forwarded_def mutator_only_simps before_load_def)
    qed
  qed
qed

lemma update_slot_slot_differs:
  assumes "slot_exists s sl" and "LoadRelaxed s sl \<noteq> r" and "r \<notin> set (mutator_stores sched)"
  shows "\<exists>k\<le>length sched.
           update_slot sl r n sched s = Inr (mutator_only sl (mutator_stores (take k sched)) s) \<and>
           LoadRelaxed (mutator_only sl (mutator_stores (take k sched)) s) sl \<noteq> r"
proof (cases sched)
  case Nil
  with assms show ?thesis by (simp add: mutator_only_simps)
next
  case (Cons e es)
  show ?thesis
  proof (cases e)
    case (StoresBeforeLoad w)
    with Cons assms have "w \<noteq> r" by auto
    with StoresBeforeLoad Cons assms have
      "update_slot sl r n sched s = Inr (mutator_only sl (mutator_stores (take 1 sched)) s) \<and>
       LoadRelaxed (mutator_only sl (mutator_stores (take 1 sched)) s) sl \<noteq> r"
      by (simp add: before_load_def mutator_only_simps LoadRelaxed_StoreRelaxed)
    with Cons show ?thesis by (intro exI [of _ 1]) simp
  next
    case NoStore
    with Cons assms have
      "update_slot sl r n sched s = Inr (mutator_only sl (mutator_stores (take 0 sched)) s) \<and>
       LoadRelaxed (mutator_only sl (mutator_stores (take 0 sched)) s) sl \<noteq> r"
      by (simp add: before_load_def mutator_only_simps)
    then show ?thesis by (intro exI [of _ 0]) simp
  next
    case (StoresBeforeCas w)
    with Cons assms have
      "update_slot sl r n sched s = Inr (mutator_only sl (mutator_stores (take 0 sched)) s) \<and>
       LoadRelaxed (mutator_only sl (mutator_stores (take 0 sched)) s) sl \<noteq> r"
      by (simp add: before_load_def mutator_only_simps)
    then show ?thesis by (intro exI [of _ 0]) simp
  next
    case CasFailsSpuriously
    with Cons assms have
      "update_slot sl r n sched s = Inr (mutator_only sl (mutator_stores (take 0 sched)) s) \<and>
       LoadRelaxed (mutator_only sl (mutator_stores (take 0 sched)) s) sl \<noteq> r"
      by (simp add: before_load_def mutator_only_simps)
    then show ?thesis by (intro exI [of _ 0]) simp
  qed
qed

lemma mutator_stores_take_subset:
  "set (mutator_stores (take j xs)) \<subseteq> set (mutator_stores xs)"
proof (induction xs arbitrary: j)
  case Nil
  show ?case by simp
next
  case (Cons x xs)
  show ?case using Cons.IH by (cases j) auto
qed

lemma update_slot_keeps_store:
  assumes "slot_exists s sl" and "LoadRelaxed s sl = r" and "stores_other_value r sched"
  shows "\<exists>k. spurious_failures sched < k \<and> k \<le> length sched \<and>
           update_slot sl r n sched s = Inr (mutator_only sl (mutator_stores (take k sched)) s) \<and>
           LoadRelaxed (mutator_only sl (mutator_stores (take k sched)) s) sl \<noteq> r \<and>
           LoadRelaxed (mutator_only sl (mutator_stores (take k sched)) s) sl
             \<in> set (mutator_stores sched)"
  using assms(3)
proof (induction sched)
  case Nil
  then show ?case by (simp add: stores_other_value_def)
next
  case (Cons e es)
  show ?case
  proof (cases e)
    case NoStore
    with Cons.prems show ?thesis by (simp add: stores_other_value_def)
  next
    case CasFailsSpuriously
    with Cons.prems have "stores_other_value r es" by (simp add: stores_other_value_def)
    from Cons.IH [OF this] obtain k where k: "spurious_failures es < k" "k \<le> length es"
      "update_slot sl r n es s = Inr (mutator_only sl (mutator_stores (take k es)) s)"
      "LoadRelaxed (mutator_only sl (mutator_stores (take k es)) s) sl \<noteq> r"
      "LoadRelaxed (mutator_only sl (mutator_stores (take k es)) s) sl \<in> set (mutator_stores es)"
      by blast
    from CasFailsSpuriously assms(2) have
      "update_slot sl r n (e # es) s = update_slot sl r n es s"
      by (simp add: CompareExchangeWeakRelaxed_def before_load_def before_cas_def)
    with k CasFailsSpuriously show ?thesis
      by (intro exI [of _ "Suc k"]) (simp add: spurious_failures_def)
  next
    case (StoresBeforeLoad w)
    with Cons.prems have w: "w \<noteq> r" by (auto simp: stores_other_value_def)
    with StoresBeforeLoad assms(1) have
      "update_slot sl r n (e # es) s =
         Inr (mutator_only sl (mutator_stores (take 1 (e # es))) s) \<and>
       LoadRelaxed (mutator_only sl (mutator_stores (take 1 (e # es))) s) sl = w"
      by (simp add: before_load_def mutator_only_simps LoadRelaxed_StoreRelaxed)
    with w StoresBeforeLoad show ?thesis
      by (intro exI [of _ 1]) (simp add: spurious_failures_def)
  next
    case (StoresBeforeCas w)
    with Cons.prems have w: "w \<noteq> r" and es: "r \<notin> set (mutator_stores es)"
      by (auto simp: stores_other_value_def)
    let ?s1 = "StoreRelaxed s sl w"
    from StoresBeforeCas assms(1,2) w have u:
      "update_slot sl r n (e # es) s = update_slot sl r n es ?s1"
      by (simp add: CompareExchangeWeakRelaxed_def before_load_def before_cas_def
            LoadRelaxed_StoreRelaxed)
    have l1: "LoadRelaxed ?s1 sl \<noteq> r" using assms(1) w by (simp add: LoadRelaxed_StoreRelaxed)
    from update_slot_slot_differs [OF _ l1 es, of n] assms(1) obtain k where k: "k \<le> length es"
      "update_slot sl r n es ?s1 = Inr (mutator_only sl (mutator_stores (take k es)) ?s1)"
      "LoadRelaxed (mutator_only sl (mutator_stores (take k es)) ?s1) sl \<noteq> r"
      by auto
    have m: "mutator_only sl (mutator_stores (take k es)) ?s1 =
             mutator_only sl (mutator_stores (take (Suc k) (e # es))) s"
      using StoresBeforeCas by (simp add: mutator_only_simps)
    have ne: "mutator_stores (take (Suc k) (e # es)) \<noteq> []"
      using StoresBeforeCas by simp
    have "last (mutator_stores (take (Suc k) (e # es)))
            \<in> set (mutator_stores (take (Suc k) (e # es)))"
      by (rule last_in_set [OF ne])
    with mutator_stores_take_subset [of "Suc k" "e # es"] have
      "last (mutator_stores (take (Suc k) (e # es))) \<in> set (mutator_stores (e # es))"
      by blast
    with LoadRelaxed_mutator_only [OF assms(1) ne] have
      "LoadRelaxed (mutator_only sl (mutator_stores (take (Suc k) (e # es))) s) sl
         \<in> set (mutator_stores (e # es))"
      by simp
    moreover have "spurious_failures (e # es) < Suc k"
      using StoresBeforeCas by (simp add: spurious_failures_def)
    moreover have "Suc k \<le> length (e # es)" using k(1) by simp
    moreover have "update_slot sl r n (e # es) s =
      Inr (mutator_only sl (mutator_stores (take (Suc k) (e # es))) s)"
      using u k(2) m by simp
    moreover have "LoadRelaxed (mutator_only sl (mutator_stores (take (Suc k) (e # es))) s) sl \<noteq> r"
      using k(3) m by simp
    ultimately show ?thesis by blast
  qed
qed

lemma update_slot_installs:
  assumes "LoadRelaxed s sl = r" and "stays_away sched"
  shows "update_slot sl r n sched s = Inr (StoreRelaxed s sl n)"
  using assms(2)
proof (induction sched)
  case Nil
  with assms(1) show ?case by (simp add: CompareExchangeWeakRelaxed_def)
next
  case (Cons e es)
  show ?case
  proof (cases e)
    case NoStore
    with assms(1) show ?thesis
      by (simp add: CompareExchangeWeakRelaxed_def before_load_def before_cas_def)
  next
    case CasFailsSpuriously
    with Cons.prems have "stays_away es" by (simp add: stays_away_def)
    from Cons.IH [OF this] CasFailsSpuriously assms(1) show ?thesis
      by (simp add: CompareExchangeWeakRelaxed_def before_load_def before_cas_def)
  next
    case (StoresBeforeLoad w)
    with Cons.prems show ?thesis by (simp add: stays_away_def)
  next
    case (StoresBeforeCas w)
    with Cons.prems show ?thesis by (simp add: stays_away_def)
  qed
qed

lemma after_Mark_keeps_store:
  assumes "m = Inr (t, s1)" and "t \<noteq> r" and "slot_exists s1 sl" and "LoadRelaxed s1 sl = r"
    and "stores_other_value r sched"
  shows "\<exists>k. spurious_failures sched < k \<and> k \<le> length sched \<and>
           and_then m (\<lambda>(to_ref, s1). if to_ref = r then Inr s1
                                       else update_slot sl r to_ref sched s1) =
             Inr (mutator_only sl (mutator_stores (take k sched)) s1) \<and>
           LoadRelaxed (mutator_only sl (mutator_stores (take k sched)) s1) sl \<noteq> r \<and>
           LoadRelaxed (mutator_only sl (mutator_stores (take k sched)) s1) sl
             \<in> set (mutator_stores sched)"
  using update_slot_keeps_store [OF assms(3,4,5), of t] assms(1,2)
  by (simp add: and_then_def)

lemma Process_unfold:
  assumes "kIsDebugBuild K \<longrightarrow> Some self = thread_running_gc s"
  shows "Process K Mark mut self s obj offset =
     and_then (Mark False self (LoadRelaxed s (FieldSlot obj offset)) s)
       (\<lambda>(to_ref, s1).
          if to_ref = LoadRelaxed s (FieldSlot obj offset) then Inr s1
          else update_slot (FieldSlot obj offset) (LoadRelaxed s (FieldSlot obj offset)) to_ref
                 (mut (FieldSlot obj offset)) s1)"
  using assms by (auto simp: Process_def DCHECK_def Let_def simp del: LoadRelaxed.simps)

lemma MarkRoot_unfold:
  assumes "kIsDebugBuild K \<longrightarrow> LoadRelaxed s root \<noteq> 0"
  shows "MarkRoot K Mark g mut self s root =
     and_then (Mark g self (LoadRelaxed s root) s)
       (\<lambda>(to_ref, s1).
          if to_ref = LoadRelaxed s root then Inr s1
          else update_slot root (LoadRelaxed s root) to_ref (mut root) s1)"
  using assms
  by (auto simp: MarkRoot_def DCHECK_def Let_def and_then_def split: sum.splits)

lemma VisitRoots_unfold:
  "VisitRoots K Mark mut self s [a] 1 =
     and_then (Mark True self (LoadRelaxed s (RootSlot a)) s)
       (\<lambda>(to_ref, s1).
          if to_ref = LoadRelaxed s (RootSlot a) then Inr s1
          else update_slot (RootSlot a) (LoadRelaxed s (RootSlot a)) to_ref
                 (mut (RootSlot a)) s1)"
  by (auto simp: VisitRoots_def Let_def and_then_def split: sum.splits)

text \<open>
  C10. The loop of \<^verbatim>\<open>Process\<close>, \<^verbatim>\<open>MarkRoot\<close> and \<^verbatim>\<open>VisitRoots\<close>, for every schedule of the
  mutators' stores into the slot and of spurious failures of the weak compare-and-set.

  The state it returns is exactly this: the mutators have made the stores of the entries of
  the schedule that had their turn (\<open>entries_used\<close>) and the collector nothing, and then the
  new reference has replaced the expected one if the slot held it, and the slot has been
  left as it was if it held any other value (\<open>forwarded\<close>).

  When the slot holds the expected reference at the start and the mutators store into it,
  never the expected reference again, the loop returns a state that the mutators' stores
  alone produce: the collector has written nothing, the slot holds a value that the
  mutators stored, and all the stores up to the first one and beyond have taken place.
  When the mutators stay away, the loop installs the new reference.

  The three functions are \<^verbatim>\<open>Mark\<close> on the reference read from the slot followed by this
  loop when \<^verbatim>\<open>Mark\<close> returns another reference; so when \<^verbatim>\<open>Mark\<close> has left the expected
  reference in the slot and the mutators then store other values, they return the state
  of the mutators' stores alone, without the forwarded reference. \<^verbatim>\<open>VisitRoots\<close> does this
  for each root in turn.
\<close>

theorem forwarding_update_keeps_mutator_stores:
  "(slot_exists s sl \<longrightarrow>
      update_slot sl expected_ref new_ref sched s =
        Inr (forwarded sl expected_ref new_ref
               (mutator_only sl
                  (mutator_stores
                     (take (entries_used expected_ref (LoadRelaxed s sl) sched) sched)) s))) \<and>
   (slot_exists s sl \<and> LoadRelaxed s sl = expected_ref \<and>
    stores_other_value expected_ref sched \<longrightarrow>
      (\<exists>k. spurious_failures sched < k \<and> k \<le> length sched \<and>
         update_slot sl expected_ref new_ref sched s =
           Inr (mutator_only sl (mutator_stores (take k sched)) s) \<and>
         LoadRelaxed (mutator_only sl (mutator_stores (take k sched)) s) sl \<noteq> expected_ref \<and>
         LoadRelaxed (mutator_only sl (mutator_stores (take k sched)) s) sl
           \<in> set (mutator_stores sched))) \<and>
   (LoadRelaxed s sl = expected_ref \<and> stays_away sched \<longrightarrow>
      update_slot sl expected_ref new_ref sched s = Inr (StoreRelaxed s sl new_ref)) \<and>
   ((kIsDebugBuild K \<longrightarrow> Some self = thread_running_gc s) \<longrightarrow>
      Process K Mark mut self s obj offset =
        and_then (Mark False self (LoadRelaxed s (FieldSlot obj offset)) s)
          (\<lambda>(to_ref, s1).
             if to_ref = LoadRelaxed s (FieldSlot obj offset) then Inr s1
             else update_slot (FieldSlot obj offset) (LoadRelaxed s (FieldSlot obj offset))
                    to_ref (mut (FieldSlot obj offset)) s1)) \<and>
   ((kIsDebugBuild K \<longrightarrow> LoadRelaxed s root \<noteq> 0) \<longrightarrow>
      MarkRoot K Mark g mut self s root =
        and_then (Mark g self (LoadRelaxed s root) s)
          (\<lambda>(to_ref, s1).
             if to_ref = LoadRelaxed s root then Inr s1
             else update_slot root (LoadRelaxed s root) to_ref (mut root) s1)) \<and>
   VisitRoots K Mark mut self s [a] 1 =
     and_then (Mark True self (LoadRelaxed s (RootSlot a)) s)
       (\<lambda>(to_ref, s1).
          if to_ref = LoadRelaxed s (RootSlot a) then Inr s1
          else update_slot (RootSlot a) (LoadRelaxed s (RootSlot a)) to_ref
                 (mut (RootSlot a)) s1) \<and>
   VisitRoots K Mark mut self s (a # roots) (Suc count) =
     and_then (VisitRoots K Mark mut self s [a] 1)
       (\<lambda>s1. VisitRoots K Mark mut self s1 roots count) \<and>
   VisitRoots K Mark mut self s [] count = Inr s \<and>
   (\<forall>t s1. (kIsDebugBuild K \<longrightarrow> Some self = thread_running_gc s) \<and>
        Mark False self (LoadRelaxed s (FieldSlot obj offset)) s = Inr (t, s1) \<and>
        t \<noteq> LoadRelaxed s (FieldSlot obj offset) \<and>
        slot_exists s1 (FieldSlot obj offset) \<and>
        LoadRelaxed s1 (FieldSlot obj offset) = LoadRelaxed s (FieldSlot obj offset) \<and>
        stores_other_value (LoadRelaxed s (FieldSlot obj offset)) (mut (FieldSlot obj offset)) \<longrightarrow>
      (\<exists>k. spurious_failures (mut (FieldSlot obj offset)) < k \<and>
           k \<le> length (mut (FieldSlot obj offset)) \<and>
           Process K Mark mut self s obj offset =
             Inr (mutator_only (FieldSlot obj offset)
                    (mutator_stores (take k (mut (FieldSlot obj offset)))) s1) \<and>
           LoadRelaxed (mutator_only (FieldSlot obj offset)
                    (mutator_stores (take k (mut (FieldSlot obj offset)))) s1)
              (FieldSlot obj offset) \<noteq> LoadRelaxed s (FieldSlot obj offset) \<and>
           LoadRelaxed (mutator_only (FieldSlot obj offset)
                    (mutator_stores (take k (mut (FieldSlot obj offset)))) s1)
              (FieldSlot obj offset) \<in> set (mutator_stores (mut (FieldSlot obj offset))))) \<and>
   (\<forall>t s1. (kIsDebugBuild K \<longrightarrow> LoadRelaxed s root \<noteq> 0) \<and>
        Mark g self (LoadRelaxed s root) s = Inr (t, s1) \<and>
        t \<noteq> LoadRelaxed s root \<and> slot_exists s1 root \<and>
        LoadRelaxed s1 root = LoadRelaxed s root \<and>
        stores_other_value (LoadRelaxed s root) (mut root) \<longrightarrow>
      (\<exists>k. spurious_failures (mut root) < k \<and> k \<le> length (mut root) \<and>
           MarkRoot K Mark g mut self s root =
             Inr (mutator_only root (mutator_stores (take k (mut root))) s1) \<and>
           LoadRelaxed (mutator_only root (mutator_stores (take k (mut root))) s1) root
             \<noteq> LoadRelaxed s root \<and>
           LoadRelaxed (mutator_only root (mutator_stores (take k (mut root))) s1) root
             \<in> set (mutator_stores (mut root)))) \<and>
   (\<forall>t s1. Mark True self (LoadRelaxed s (RootSlot a)) s = Inr (t, s1) \<and>
        t \<noteq> LoadRelaxed s (RootSlot a) \<and>
        LoadRelaxed s1 (RootSlot a) = LoadRelaxed s (RootSlot a) \<and>
        stores_other_value (LoadRelaxed s (RootSlot a)) (mut (RootSlot a)) \<longrightarrow>
      (\<exists>k. spurious_failures (mut (RootSlot a)) < k \<and> k \<le> length (mut (RootSlot a)) \<and>
           VisitRoots K Mark mut self s [a] 1 =
             Inr (mutator_only (RootSlot a)
                    (mutator_stores (take k (mut (RootSlot a)))) s1) \<and>
           LoadRelaxed (mutator_only (RootSlot a)
                    (mutator_stores (take k (mut (RootSlot a)))) s1) (RootSlot a)
             \<noteq> LoadRelaxed s (RootSlot a) \<and>
           LoadRelaxed (mutator_only (RootSlot a)
                    (mutator_stores (take k (mut (RootSlot a)))) s1) (RootSlot a)
             \<in> set (mutator_stores (mut (RootSlot a)))))"
proof -
  have exact: "slot_exists s sl \<longrightarrow>
      update_slot sl expected_ref new_ref sched s =
        Inr (forwarded sl expected_ref new_ref
               (mutator_only sl
                  (mutator_stores
                     (take (entries_used expected_ref (LoadRelaxed s sl) sched) sched)) s))"
    using update_slot_exact by blast
  have keeps: "slot_exists s sl \<and> LoadRelaxed s sl = expected_ref \<and>
    stores_other_value expected_ref sched \<longrightarrow>
      (\<exists>k. spurious_failures sched < k \<and> k \<le> length sched \<and>
         update_slot sl expected_ref new_ref sched s =
           Inr (mutator_only sl (mutator_stores (take k sched)) s) \<and>
         LoadRelaxed (mutator_only sl (mutator_stores (take k sched)) s) sl \<noteq> expected_ref \<and>
         LoadRelaxed (mutator_only sl (mutator_stores (take k sched)) s) sl
           \<in> set (mutator_stores sched))"
    using update_slot_keeps_store by blast
  have installs: "LoadRelaxed s sl = expected_ref \<and> stays_away sched \<longrightarrow>
      update_slot sl expected_ref new_ref sched s = Inr (StoreRelaxed s sl new_ref)"
    using update_slot_installs by blast
  have p: "(kIsDebugBuild K \<longrightarrow> Some self = thread_running_gc s) \<longrightarrow>
      Process K Mark mut self s obj offset =
        and_then (Mark False self (LoadRelaxed s (FieldSlot obj offset)) s)
          (\<lambda>(to_ref, s1).
             if to_ref = LoadRelaxed s (FieldSlot obj offset) then Inr s1
             else update_slot (FieldSlot obj offset) (LoadRelaxed s (FieldSlot obj offset))
                    to_ref (mut (FieldSlot obj offset)) s1)"
    by (intro impI) (rule Process_unfold)
  have r: "(kIsDebugBuild K \<longrightarrow> LoadRelaxed s root \<noteq> 0) \<longrightarrow>
      MarkRoot K Mark g mut self s root =
        and_then (Mark g self (LoadRelaxed s root) s)
          (\<lambda>(to_ref, s1).
             if to_ref = LoadRelaxed s root then Inr s1
             else update_slot root (LoadRelaxed s root) to_ref (mut root) s1)"
    by (intro impI) (rule MarkRoot_unfold)
  note v = VisitRoots_unfold [of K Mark mut self s a]
  have unfold: "VisitRoots K Mark mut self s (a # roots) (Suc count) =
     and_then (VisitRoots K Mark mut self s [a] 1)
       (\<lambda>s1. VisitRoots K Mark mut self s1 roots count)"
    by (auto simp: VisitRoots_def Let_def and_then_def split: sum.splits)
  have nil: "VisitRoots K Mark mut self s [] count = Inr s"
    by (simp add: VisitRoots_def)
  have pk: "\<forall>t s1. (kIsDebugBuild K \<longrightarrow> Some self = thread_running_gc s) \<and>
        Mark False self (LoadRelaxed s (FieldSlot obj offset)) s = Inr (t, s1) \<and>
        t \<noteq> LoadRelaxed s (FieldSlot obj offset) \<and>
        slot_exists s1 (FieldSlot obj offset) \<and>
        LoadRelaxed s1 (FieldSlot obj offset) = LoadRelaxed s (FieldSlot obj offset) \<and>
        stores_other_value (LoadRelaxed s (FieldSlot obj offset)) (mut (FieldSlot obj offset)) \<longrightarrow>
      (\<exists>k. spurious_failures (mut (FieldSlot obj offset)) < k \<and>
           k \<le> length (mut (FieldSlot obj offset)) \<and>
           Process K Mark mut self s obj offset =
             Inr (mutator_only (FieldSlot obj offset)
                    (mutator_stores (take k (mut (FieldSlot obj offset)))) s1) \<and>
           LoadRelaxed (mutator_only (FieldSlot obj offset)
                    (mutator_stores (take k (mut (FieldSlot obj offset)))) s1)
              (FieldSlot obj offset) \<noteq> LoadRelaxed s (FieldSlot obj offset) \<and>
           LoadRelaxed (mutator_only (FieldSlot obj offset)
                    (mutator_stores (take k (mut (FieldSlot obj offset)))) s1)
              (FieldSlot obj offset) \<in> set (mutator_stores (mut (FieldSlot obj offset))))"
  proof (intro allI impI, elim conjE)
    fix t s1
    assume h: "kIsDebugBuild K \<longrightarrow> Some self = thread_running_gc s"
      "Mark False self (LoadRelaxed s (FieldSlot obj offset)) s = Inr (t, s1)"
      "t \<noteq> LoadRelaxed s (FieldSlot obj offset)"
      "slot_exists s1 (FieldSlot obj offset)"
      "LoadRelaxed s1 (FieldSlot obj offset) = LoadRelaxed s (FieldSlot obj offset)"
      "stores_other_value (LoadRelaxed s (FieldSlot obj offset)) (mut (FieldSlot obj offset))"
    from after_Mark_keeps_store [OF h(2,3,4,5,6)] Process_unfold [OF h(1)]
    show "\<exists>k. spurious_failures (mut (FieldSlot obj offset)) < k \<and>
           k \<le> length (mut (FieldSlot obj offset)) \<and>
           Process K Mark mut self s obj offset =
             Inr (mutator_only (FieldSlot obj offset)
                    (mutator_stores (take k (mut (FieldSlot obj offset)))) s1) \<and>
           LoadRelaxed (mutator_only (FieldSlot obj offset)
                    (mutator_stores (take k (mut (FieldSlot obj offset)))) s1)
              (FieldSlot obj offset) \<noteq> LoadRelaxed s (FieldSlot obj offset) \<and>
           LoadRelaxed (mutator_only (FieldSlot obj offset)
                    (mutator_stores (take k (mut (FieldSlot obj offset)))) s1)
              (FieldSlot obj offset) \<in> set (mutator_stores (mut (FieldSlot obj offset)))"
      by simp
  qed
  have rk: "\<forall>t s1. (kIsDebugBuild K \<longrightarrow> LoadRelaxed s root \<noteq> 0) \<and>
        Mark g self (LoadRelaxed s root) s = Inr (t, s1) \<and>
        t \<noteq> LoadRelaxed s root \<and> slot_exists s1 root \<and>
        LoadRelaxed s1 root = LoadRelaxed s root \<and>
        stores_other_value (LoadRelaxed s root) (mut root) \<longrightarrow>
      (\<exists>k. spurious_failures (mut root) < k \<and> k \<le> length (mut root) \<and>
           MarkRoot K Mark g mut self s root =
             Inr (mutator_only root (mutator_stores (take k (mut root))) s1) \<and>
           LoadRelaxed (mutator_only root (mutator_stores (take k (mut root))) s1) root
             \<noteq> LoadRelaxed s root \<and>
           LoadRelaxed (mutator_only root (mutator_stores (take k (mut root))) s1) root
             \<in> set (mutator_stores (mut root)))"
  proof (intro allI impI, elim conjE)
    fix t s1
    assume h: "kIsDebugBuild K \<longrightarrow> LoadRelaxed s root \<noteq> 0"
      "Mark g self (LoadRelaxed s root) s = Inr (t, s1)"
      "t \<noteq> LoadRelaxed s root" "slot_exists s1 root"
      "LoadRelaxed s1 root = LoadRelaxed s root"
      "stores_other_value (LoadRelaxed s root) (mut root)"
    from after_Mark_keeps_store [OF h(2,3,4,5,6)] MarkRoot_unfold [OF h(1)]
    show "\<exists>k. spurious_failures (mut root) < k \<and> k \<le> length (mut root) \<and>
           MarkRoot K Mark g mut self s root =
             Inr (mutator_only root (mutator_stores (take k (mut root))) s1) \<and>
           LoadRelaxed (mutator_only root (mutator_stores (take k (mut root))) s1) root
             \<noteq> LoadRelaxed s root \<and>
           LoadRelaxed (mutator_only root (mutator_stores (take k (mut root))) s1) root
             \<in> set (mutator_stores (mut root))"
      by simp
  qed
  have vk: "\<forall>t s1. Mark True self (LoadRelaxed s (RootSlot a)) s = Inr (t, s1) \<and>
        t \<noteq> LoadRelaxed s (RootSlot a) \<and>
        LoadRelaxed s1 (RootSlot a) = LoadRelaxed s (RootSlot a) \<and>
        stores_other_value (LoadRelaxed s (RootSlot a)) (mut (RootSlot a)) \<longrightarrow>
      (\<exists>k. spurious_failures (mut (RootSlot a)) < k \<and> k \<le> length (mut (RootSlot a)) \<and>
           VisitRoots K Mark mut self s [a] 1 =
             Inr (mutator_only (RootSlot a)
                    (mutator_stores (take k (mut (RootSlot a)))) s1) \<and>
           LoadRelaxed (mutator_only (RootSlot a)
                    (mutator_stores (take k (mut (RootSlot a)))) s1) (RootSlot a)
             \<noteq> LoadRelaxed s (RootSlot a) \<and>
           LoadRelaxed (mutator_only (RootSlot a)
                    (mutator_stores (take k (mut (RootSlot a)))) s1) (RootSlot a)
             \<in> set (mutator_stores (mut (RootSlot a))))"
  proof (intro allI impI, elim conjE)
    fix t s1
    assume h: "Mark True self (LoadRelaxed s (RootSlot a)) s = Inr (t, s1)"
      "t \<noteq> LoadRelaxed s (RootSlot a)"
      "LoadRelaxed s1 (RootSlot a) = LoadRelaxed s (RootSlot a)"
      "stores_other_value (LoadRelaxed s (RootSlot a)) (mut (RootSlot a))"
    have e: "slot_exists s1 (RootSlot a)" by simp
    from after_Mark_keeps_store [OF h(1,2) e h(3,4)] v
    show "\<exists>k. spurious_failures (mut (RootSlot a)) < k \<and> k \<le> length (mut (RootSlot a)) \<and>
           VisitRoots K Mark mut self s [a] 1 =
             Inr (mutator_only (RootSlot a)
                    (mutator_stores (take k (mut (RootSlot a)))) s1) \<and>
           LoadRelaxed (mutator_only (RootSlot a)
                    (mutator_stores (take k (mut (RootSlot a)))) s1) (RootSlot a)
             \<noteq> LoadRelaxed s (RootSlot a) \<and>
           LoadRelaxed (mutator_only (RootSlot a)
                    (mutator_stores (take k (mut (RootSlot a)))) s1) (RootSlot a)
             \<in> set (mutator_stores (mut (RootSlot a)))"
      by simp
  qed
  show ?thesis
    by (intro conjI) (rule exact keeps installs p r v unfold nil pk rk vk)+
qed

lemma state2_loads:
  "LoadRelaxed state2 (FieldSlot 2000 0) = 1000"
  "LoadRelaxed (StoreRelaxed state2 (FieldSlot 2000 0) v) (FieldSlot 2000 0) = v"
  "slot_exists state2 (FieldSlot 2000 0)"
  by (simp_all add: state2_def)

lemma state2_flags: "kIsDebugBuild build0" "Some 1 = thread_running_gc state2"
  by (simp_all add: build0_def state2_def state1_def state0_def)

lemma Process_state2_disturbed:
  "Process build0 Mark_forwards mutator_stores_24 1 state2 2000 0 =
     Inr (StoreRelaxed state2 (FieldSlot 2000 0) 24)"
  using state2_flags
  by (simp add: Process_def DCHECK_def and_then_def Mark_forwards_def mutator_stores_24_def
        state2_loads CompareExchangeWeakRelaxed_def before_load_def before_cas_def Let_def
        del: LoadRelaxed.simps StoreRelaxed.simps)

lemma Process_state2_quiet:
  "Process build0 Mark_forwards mutators_quiet 1 state2 2000 0 =
     Inr (StoreRelaxed state2 (FieldSlot 2000 0) 2008)"
  using state2_flags
  by (simp add: Process_def DCHECK_def and_then_def Mark_forwards_def mutators_quiet_def
        state2_loads CompareExchangeWeakRelaxed_def before_load_def before_cas_def Let_def
        del: LoadRelaxed.simps StoreRelaxed.simps)

lemma mutator_stores_24_other:
  "stores_other_value 1000 (mutator_stores_24 (FieldSlot 2000 0))"
  "spurious_failures (mutator_stores_24 (FieldSlot 2000 0)) = 1"
  "length (mutator_stores_24 (FieldSlot 2000 0)) = 2"
  by (simp_all add: stores_other_value_def spurious_failures_def mutator_stores_24_def)

theorem forwarding_update_keeps_mutator_stores_witness:
  "kIsDebugBuild build0 \<and> Some 1 = thread_running_gc state2 \<and>
   Mark_forwards False 1 (LoadRelaxed state2 (FieldSlot 2000 0)) state2 = Inr (2008, state2) \<and>
   2008 \<noteq> LoadRelaxed state2 (FieldSlot 2000 0) \<and>
   slot_exists state2 (FieldSlot 2000 0) \<and>
   stores_other_value (LoadRelaxed state2 (FieldSlot 2000 0))
     (mutator_stores_24 (FieldSlot 2000 0)) \<and>
   Process build0 Mark_forwards mutator_stores_24 1 state2 2000 0 =
     Inr (mutator_only (FieldSlot 2000 0)
            (mutator_stores (take 2 (mutator_stores_24 (FieldSlot 2000 0)))) state2) \<and>
   Process build0 Mark_forwards mutator_stores_24 1 state2 2000 0 =
     Inr (StoreRelaxed state2 (FieldSlot 2000 0) 24) \<and>
   LoadRelaxed (StoreRelaxed state2 (FieldSlot 2000 0) 24) (FieldSlot 2000 0) = 24 \<and>
   Process build0 Mark_forwards mutators_quiet 1 state2 2000 0 =
     Inr (StoreRelaxed state2 (FieldSlot 2000 0) 2008)"
proof -
  have m: "Mark_forwards False 1 (LoadRelaxed state2 (FieldSlot 2000 0)) state2 =
           Inr (2008, state2)"
    by (simp add: Mark_forwards_def state2_loads del: LoadRelaxed.simps)
  have ne: "2008 \<noteq> LoadRelaxed state2 (FieldSlot 2000 0)"
    by (simp add: state2_loads del: LoadRelaxed.simps)
  have o: "stores_other_value (LoadRelaxed state2 (FieldSlot 2000 0))
             (mutator_stores_24 (FieldSlot 2000 0))"
    by (simp add: state2_loads mutator_stores_24_other del: LoadRelaxed.simps)
  from forwarding_update_keeps_mutator_stores
         [where K = build0 and self = 1 and s = state2 and Mark = Mark_forwards
            and obj = 2000 and offset = 0 and mut = mutator_stores_24,
          THEN conjunct2, THEN conjunct2, THEN conjunct2, THEN conjunct2, THEN conjunct2,
          THEN conjunct2, THEN conjunct2, THEN conjunct2, THEN conjunct1, rule_format,
          of 2008 state2]
    state2_flags m ne state2_loads(3) o
  obtain k where k: "spurious_failures (mutator_stores_24 (FieldSlot 2000 0)) < k"
    "k \<le> length (mutator_stores_24 (FieldSlot 2000 0))"
    "Process build0 Mark_forwards mutator_stores_24 1 state2 2000 0 =
       Inr (mutator_only (FieldSlot 2000 0)
              (mutator_stores (take k (mutator_stores_24 (FieldSlot 2000 0)))) state2)"
    by blast
  from k(1,2) have "k = 2" by (simp add: mutator_stores_24_other)
  with k(3) have "Process build0 Mark_forwards mutator_stores_24 1 state2 2000 0 =
     Inr (mutator_only (FieldSlot 2000 0)
            (mutator_stores (take 2 (mutator_stores_24 (FieldSlot 2000 0)))) state2)"
    by simp
  with state2_flags m ne o Process_state2_disturbed Process_state2_quiet state2_loads(2) [of 24]
    state2_loads(3)
  show ?thesis by blast
qed

subsection \<open>ProcessMarkStackRef\<close>

lemma for_each_same:
  assumes "\<And>x s s'. body x s = Inr s' \<Longrightarrow> s' = s"
    and "for_each xs body s = Inr s'"
  shows "s' = s"
  using assms(2)
proof (induction xs arbitrary: s)
  case Nil
  then show ?case by simp
next
  case (Cons x xs)
  then obtain s1 where "body x s = Inr s1" "for_each xs body s1 = Inr s'"
    by (auto simp: and_then_Inr_iff)
  with Cons.IH assms(1) show ?case by blast
qed

lemma for_each_chain:
  assumes "for_each xs body s = Inr s'"
  shows "\<exists>ss. length ss = Suc (length xs) \<and> ss ! 0 = s \<and> ss ! length xs = s' \<and>
              (\<forall>i<length xs. body (xs ! i) (ss ! i) = Inr (ss ! Suc i))"
  using assms
proof (induction xs arbitrary: s)
  case Nil
  then show ?case by (intro exI [of _ "[s]"]) simp
next
  case (Cons x xs)
  then obtain s1 where b: "body x s = Inr s1" and r: "for_each xs body s1 = Inr s'"
    by (auto simp: and_then_Inr_iff)
  from Cons.IH [OF r] obtain ss where ss: "length ss = Suc (length xs)" "ss ! 0 = s1"
    "ss ! length xs = s'" "\<forall>i<length xs. body (xs ! i) (ss ! i) = Inr (ss ! Suc i)"
    by blast
  have "\<forall>i<length (x # xs). body ((x # xs) ! i) ((s # ss) ! i) = Inr ((s # ss) ! Suc i)"
  proof (intro allI impI)
    fix i assume "i < length (x # xs)"
    then show "body ((x # xs) ! i) ((s # ss) ! i) = Inr ((s # ss) ! Suc i)"
      using b ss by (cases i) simp_all
  qed
  with ss show ?case by (intro exI [of _ "s # ss"]) simp
qed

lemma AssertToSpaceInvariantRefsVisitor_same:
  "AssertToSpaceInvariantRefsVisitor K self r s = Inr s' \<Longrightarrow> s' = s"
  by (auto simp: AssertToSpaceInvariantRefsVisitor_def and_then_Inr_iff split: if_splits)

lemma AssertToSpaceInvariantObjectVisitor_same:
  assumes "AssertToSpaceInvariantObjectVisitor K self s obj = Inr s'"
  shows "s' = s"
proof -
  from assms obtain s1 s2 where
    1: "for_each [0 ..< length (ref_fields (heap s obj))]
          (\<lambda>offset s. AssertToSpaceInvariantRefsVisitor K self
                        (LoadRelaxed s (FieldSlot obj offset)) s) s = Inr s1"
    and 2: "(if IsTypeOfReferenceClass (classes s1 (klass (heap s1 obj)))
             then CHECK (IsTypeOfReferenceClass (classes s1 (klass (heap s1 obj))))
                    ''klass->IsTypeOfReferenceClass()'' (Inr s1) else Inr s1) = Inr s2"
    and 3: "for_each [0 ..< length (native_roots (heap s2 obj))]
          (\<lambda>i s. if LoadRelaxed s (NativeRootSlot obj i) \<noteq> 0
                 then AssertToSpaceInvariantRefsVisitor K self
                        (LoadRelaxed s (NativeRootSlot obj i)) s
                 else Inr s) s2 = Inr s'"
    unfolding AssertToSpaceInvariantObjectVisitor_def VisitReferences_def CHECK_Inr_iff
      and_then_Inr_iff by blast
  have "s1 = s"
    by (rule for_each_same [OF _ 1]) (rule AssertToSpaceInvariantRefsVisitor_same)
  moreover from 2 have "s2 = s1" by (auto simp: CHECK_Inr_iff split: if_splits)
  moreover have "s' = s2"
    by (rule for_each_same [OF _ 3])
       (auto dest: AssertToSpaceInvariantRefsVisitor_same split: if_splits)
  ultimately show ?thesis by simp
qed

lemma Process_Inr:
  assumes "Process K Mark mut self s obj offset = Inr s'"
  shows "\<exists>t sm k. Mark False self (LoadRelaxed s (FieldSlot obj offset)) s = Inr (t, sm) \<and>
           k \<le> length (mut (FieldSlot obj offset)) \<and>
           s' = forwarded (FieldSlot obj offset) (LoadRelaxed s (FieldSlot obj offset)) t
                  (mutator_only (FieldSlot obj offset)
                     (mutator_stores (take k (mut (FieldSlot obj offset)))) sm)"
proof -
  let ?sl = "FieldSlot obj offset"
  let ?f = "\<lambda>(to_ref, s1). if to_ref = LoadRelaxed s ?sl then Inr s1
                            else update_slot ?sl (LoadRelaxed s ?sl) to_ref (mut ?sl) s1"
  from assms have a: "and_then (Mark False self (LoadRelaxed s ?sl) s) ?f = Inr s'"
    unfolding Process_def DCHECK_Inr_iff Let_def by blast
  then obtain x where "Mark False self (LoadRelaxed s ?sl) s = Inr x"
    unfolding and_then_Inr_iff by blast
  then obtain t sm where m: "Mark False self (LoadRelaxed s ?sl) s = Inr (t, sm)"
    by (cases x) simp
  from forwarding_after_Mark [where sched = "mut ?sl" and sl = ?sl
      and r = "LoadRelaxed s ?sl", OF m] a m
  show ?thesis by (metis sum.inject(2))
qed

lemma Scan_fields:
  assumes "Scan K Mark R mut self s obj = Inr s1"
  shows "\<exists>ss. length ss = Suc (length (ref_fields (heap s obj))) \<and> ss ! 0 = s \<and>
           (\<forall>i<length (ref_fields (heap s obj)).
               Process K Mark mut self (ss ! i) obj i = Inr (ss ! Suc i))"
proof -
  from assms obtain sa where
    "for_each [0 ..< length (ref_fields (heap s obj))]
       (\<lambda>offset s. Process K Mark mut self s obj offset) s = Inr sa"
    unfolding Scan_def VisitReferences_def DCHECK_Inr_iff and_then_Inr_iff by blast
  from for_each_chain [OF this] show ?thesis by auto
qed

lemma recolour_cases:
  assumes "(let (success, s2) = AtomicSetReadBarrierPointer s1 obj GrayPtr WhitePtr
            in DCHECK d success t (Inr s2)) = Inr s3"
  shows "if GetReadBarrierPointer s1 obj = GrayPtr
         then s3 = SetReadBarrierPointer s1 obj WhitePtr else s3 = s1 \<and> \<not> d"
  using assms
  by (auto simp: AtomicSetReadBarrierPointer_def DCHECK_Inr_iff split: if_splits)

lemma ProcessMarkStackRef_Inr:
  assumes "ProcessMarkStackRef K Mark R mut self s obj = Inr s'"
    and "kUseBakerReadBarrier K" and "USE_BAKER_OR_BROOKS_READ_BARRIER K"
  shows "\<exists>s1. Scan K Mark R mut self s obj = Inr s1 \<and>
           (kIsDebugBuild K \<longrightarrow> GetReadBarrierPointer s obj = GrayPtr \<and>
                                 GetReadBarrierPointer s1 obj = GrayPtr) \<and>
           heap s' =
             (if \<not> referent_not_in_to_space R s1 obj \<and> GetReadBarrierPointer s1 obj = GrayPtr
              then (heap s1)(obj := (heap s1 obj)\<lparr>rb_ptr := WhitePtr\<rparr>)
              else heap s1)"
proof -
  from assms have "\<exists>s1 s3 s4.
      Scan K Mark R mut self s obj = Inr s1 \<and>
      (kIsDebugBuild K \<longrightarrow> GetReadBarrierPointer s obj = GrayPtr) \<and>
      (kIsDebugBuild K \<longrightarrow> GetReadBarrierPointer s1 obj = GrayPtr) \<and>
      (if referent_not_in_to_space R s1 obj then
              DCHECK (kIsDebugBuild K) (pending_next (heap s1 obj) \<noteq> 0)
                ''Left unenqueued ref gray'' (Inr s1)
            else (let (success, s2) = AtomicSetReadBarrierPointer s1 obj GrayPtr WhitePtr
               in DCHECK (kIsDebugBuild K) success ''Must succeed as we won the race.''
                    (Inr s2))) = Inr s3 \<and>
      (if IsInUnevacFromSpace s3 obj then
           DCHECK (kIsDebugBuild K) (region_space_bitmap s3 obj)
             ''region_space_bitmap_->Test(to_ref)''
            (let obj_size = SizeOf K s3 obj;
                 alloc_size = RoundUp obj_size (kAlignment K)
             in Inr (s3\<lparr>region_space_AddLiveBytes :=
                          region_space_AddLiveBytes s3 @ [(obj, alloc_size)]\<rparr>))
         else Inr s3) = Inr s4 \<and>
      (if kEnableToSpaceInvariantChecks K \<or> kIsDebugBuild K
             then AssertToSpaceInvariantObjectVisitor K self s4 obj
             else Inr s4) = Inr s'"
    unfolding ProcessMarkStackRef_def DCHECK_Inr_iff and_then_Inr_iff
    by (simp only: if_True simp_thms) blast
  then obtain s1 s3 s4 where
    scan: "Scan K Mark R mut self s obj = Inr s1"
    and d: "kIsDebugBuild K \<longrightarrow> GetReadBarrierPointer s obj = GrayPtr"
           "kIsDebugBuild K \<longrightarrow> GetReadBarrierPointer s1 obj = GrayPtr"
    and c: "(if referent_not_in_to_space R s1 obj then
              DCHECK (kIsDebugBuild K) (pending_next (heap s1 obj) \<noteq> 0)
                ''Left unenqueued ref gray'' (Inr s1)
            else (let (success, s2) = AtomicSetReadBarrierPointer s1 obj GrayPtr WhitePtr
               in DCHECK (kIsDebugBuild K) success ''Must succeed as we won the race.''
                    (Inr s2))) = Inr s3"
    and l: "(if IsInUnevacFromSpace s3 obj then
           DCHECK (kIsDebugBuild K) (region_space_bitmap s3 obj)
             ''region_space_bitmap_->Test(to_ref)''
            (let obj_size = SizeOf K s3 obj;
                 alloc_size = RoundUp obj_size (kAlignment K)
             in Inr (s3\<lparr>region_space_AddLiveBytes :=
                          region_space_AddLiveBytes s3 @ [(obj, alloc_size)]\<rparr>))
         else Inr s3) = Inr s4"
    and v: "(if kEnableToSpaceInvariantChecks K \<or> kIsDebugBuild K
             then AssertToSpaceInvariantObjectVisitor K self s4 obj
             else Inr s4) = Inr s'"
    by blast
  from v have 1: "s' = s4"
    by (auto dest: AssertToSpaceInvariantObjectVisitor_same split: if_splits)
  from l have 2: "heap s4 = heap s3"
    by (auto simp: DCHECK_Inr_iff Let_def split: if_splits)
  have 3: "heap s3 =
             (if \<not> referent_not_in_to_space R s1 obj \<and> GetReadBarrierPointer s1 obj = GrayPtr
              then (heap s1)(obj := (heap s1 obj)\<lparr>rb_ptr := WhitePtr\<rparr>)
              else heap s1)"
  proof (cases "referent_not_in_to_space R s1 obj")
    case True
    with c show ?thesis by (simp add: DCHECK_Inr_iff)
  next
    case False
    with c have "(let (success, s2) = AtomicSetReadBarrierPointer s1 obj GrayPtr WhitePtr
               in DCHECK (kIsDebugBuild K) success ''Must succeed as we won the race.''
                    (Inr s2)) = Inr s3" by simp
    from recolour_cases [OF this] False show ?thesis
      by (auto simp: SetReadBarrierPointer_def split: if_splits)
  qed
  from scan d 1 2 3 show ?thesis by auto
qed
text \<open>
  C6. \<^verbatim>\<open>ProcessMarkStackRef\<close> in Baker mode. In a debug build a reference that is not gray
  fails a check. When the function returns, \<^verbatim>\<open>Scan\<close> has returned a state \<open>s1\<close>; in a debug
  build the object was gray before and after the scan; \<^verbatim>\<open>Scan\<close> has gone through the
  reference fields in order and for each has called \<^verbatim>\<open>Mark\<close> on the reference it holds and
  put the result in the field unless a mutator stored another value there; and the heap
  at the end is the heap after the scan with the object turned from gray to white, except
  when the object's class is a reference class and its referent is not null and not in
  to-space: then the object is left as it is, that is gray.
\<close>

theorem ProcessMarkStackRef_gray_to_white:
  assumes "kUseBakerReadBarrier K" and "USE_BAKER_OR_BROOKS_READ_BARRIER K"
  shows
   "(kIsDebugBuild K \<and> \<not> IsInFromSpace s obj \<and> GetReadBarrierPointer s obj \<noteq> GrayPtr \<longrightarrow>
       ProcessMarkStackRef K Mark R mut self s obj =
         Inl (CheckFailed ''to_ref->GetReadBarrierPointer() == ReadBarrier::GrayPtr()'')) \<and>
    (\<forall>s'. ProcessMarkStackRef K Mark R mut self s obj = Inr s' \<longrightarrow>
       (\<exists>s1 ss.
          Scan K Mark R mut self s obj = Inr s1 \<and>
          (kIsDebugBuild K \<longrightarrow> GetReadBarrierPointer s obj = GrayPtr \<and>
                                GetReadBarrierPointer s1 obj = GrayPtr) \<and>
          length ss = Suc (length (ref_fields (heap s obj))) \<and> ss ! 0 = s \<and>
          (\<forall>i<length (ref_fields (heap s obj)).
             \<exists>t sm k. Mark False self (LoadRelaxed (ss ! i) (FieldSlot obj i)) (ss ! i) =
                         Inr (t, sm) \<and>
                       k \<le> length (mut (FieldSlot obj i)) \<and>
                       ss ! Suc i =
                         forwarded (FieldSlot obj i) (LoadRelaxed (ss ! i) (FieldSlot obj i)) t
                           (mutator_only (FieldSlot obj i)
                              (mutator_stores (take k (mut (FieldSlot obj i)))) sm)) \<and>
          heap s' =
            (if referent_not_in_to_space R s1 obj then heap s1
             else if GetReadBarrierPointer s1 obj = GrayPtr
                  then (heap s1)(obj := (heap s1 obj)\<lparr>rb_ptr := WhitePtr\<rparr>)
                  else heap s1) \<and>
          GetReadBarrierPointer s' obj =
            (if referent_not_in_to_space R s1 obj then GetReadBarrierPointer s1 obj
             else if GetReadBarrierPointer s1 obj = GrayPtr then WhitePtr
                  else GetReadBarrierPointer s1 obj)))"
proof (rule conjI)
  show "kIsDebugBuild K \<and> \<not> IsInFromSpace s obj \<and> GetReadBarrierPointer s obj \<noteq> GrayPtr \<longrightarrow>
       ProcessMarkStackRef K Mark R mut self s obj =
         Inl (CheckFailed ''to_ref->GetReadBarrierPointer() == ReadBarrier::GrayPtr()'')"
    using assms by (simp add: ProcessMarkStackRef_def DCHECK_def)
next
  show "\<forall>s'. ProcessMarkStackRef K Mark R mut self s obj = Inr s' \<longrightarrow>
       (\<exists>s1 ss.
          Scan K Mark R mut self s obj = Inr s1 \<and>
          (kIsDebugBuild K \<longrightarrow> GetReadBarrierPointer s obj = GrayPtr \<and>
                                GetReadBarrierPointer s1 obj = GrayPtr) \<and>
          length ss = Suc (length (ref_fields (heap s obj))) \<and> ss ! 0 = s \<and>
          (\<forall>i<length (ref_fields (heap s obj)).
             \<exists>t sm k. Mark False self (LoadRelaxed (ss ! i) (FieldSlot obj i)) (ss ! i) =
                         Inr (t, sm) \<and>
                       k \<le> length (mut (FieldSlot obj i)) \<and>
                       ss ! Suc i =
                         forwarded (FieldSlot obj i) (LoadRelaxed (ss ! i) (FieldSlot obj i)) t
                           (mutator_only (FieldSlot obj i)
                              (mutator_stores (take k (mut (FieldSlot obj i)))) sm)) \<and>
          heap s' =
            (if referent_not_in_to_space R s1 obj then heap s1
             else if GetReadBarrierPointer s1 obj = GrayPtr
                  then (heap s1)(obj := (heap s1 obj)\<lparr>rb_ptr := WhitePtr\<rparr>)
                  else heap s1) \<and>
          GetReadBarrierPointer s' obj =
            (if referent_not_in_to_space R s1 obj then GetReadBarrierPointer s1 obj
             else if GetReadBarrierPointer s1 obj = GrayPtr then WhitePtr
                  else GetReadBarrierPointer s1 obj))"
  proof (intro allI impI)
    fix s' assume r: "ProcessMarkStackRef K Mark R mut self s obj = Inr s'"
    from ProcessMarkStackRef_Inr [OF r assms] obtain s1 where
      scan: "Scan K Mark R mut self s obj = Inr s1"
      and d: "kIsDebugBuild K \<longrightarrow> GetReadBarrierPointer s obj = GrayPtr \<and>
                                 GetReadBarrierPointer s1 obj = GrayPtr"
      and h: "heap s' =
             (if \<not> referent_not_in_to_space R s1 obj \<and> GetReadBarrierPointer s1 obj = GrayPtr
              then (heap s1)(obj := (heap s1 obj)\<lparr>rb_ptr := WhitePtr\<rparr>)
              else heap s1)"
      by blast
    from Scan_fields [OF scan] obtain ss where
      ss: "length ss = Suc (length (ref_fields (heap s obj)))" "ss ! 0 = s"
      and p: "\<forall>i<length (ref_fields (heap s obj)).
               Process K Mark mut self (ss ! i) obj i = Inr (ss ! Suc i)"
      by blast
    have f: "\<forall>i<length (ref_fields (heap s obj)).
             \<exists>t sm k. Mark False self (LoadRelaxed (ss ! i) (FieldSlot obj i)) (ss ! i) =
                         Inr (t, sm) \<and>
                       k \<le> length (mut (FieldSlot obj i)) \<and>
                       ss ! Suc i =
                         forwarded (FieldSlot obj i) (LoadRelaxed (ss ! i) (FieldSlot obj i)) t
                           (mutator_only (FieldSlot obj i)
                              (mutator_stores (take k (mut (FieldSlot obj i)))) sm)"
      using p Process_Inr by blast
    have h': "heap s' =
            (if referent_not_in_to_space R s1 obj then heap s1
             else if GetReadBarrierPointer s1 obj = GrayPtr
                  then (heap s1)(obj := (heap s1 obj)\<lparr>rb_ptr := WhitePtr\<rparr>)
                  else heap s1)"
      using h by simp
    have c: "GetReadBarrierPointer s' obj =
            (if referent_not_in_to_space R s1 obj then GetReadBarrierPointer s1 obj
             else if GetReadBarrierPointer s1 obj = GrayPtr then WhitePtr
                  else GetReadBarrierPointer s1 obj)"
      using h by (simp add: GetReadBarrierPointer_def)
    from scan d ss f h' c show "\<exists>s1 ss.
          Scan K Mark R mut self s obj = Inr s1 \<and>
          (kIsDebugBuild K \<longrightarrow> GetReadBarrierPointer s obj = GrayPtr \<and>
                                GetReadBarrierPointer s1 obj = GrayPtr) \<and>
          length ss = Suc (length (ref_fields (heap s obj))) \<and> ss ! 0 = s \<and>
          (\<forall>i<length (ref_fields (heap s obj)).
             \<exists>t sm k. Mark False self (LoadRelaxed (ss ! i) (FieldSlot obj i)) (ss ! i) =
                         Inr (t, sm) \<and>
                       k \<le> length (mut (FieldSlot obj i)) \<and>
                       ss ! Suc i =
                         forwarded (FieldSlot obj i) (LoadRelaxed (ss ! i) (FieldSlot obj i)) t
                           (mutator_only (FieldSlot obj i)
                              (mutator_stores (take k (mut (FieldSlot obj i)))) sm)) \<and>
          heap s' =
            (if referent_not_in_to_space R s1 obj then heap s1
             else if GetReadBarrierPointer s1 obj = GrayPtr
                  then (heap s1)(obj := (heap s1 obj)\<lparr>rb_ptr := WhitePtr\<rparr>)
                  else heap s1) \<and>
          GetReadBarrierPointer s' obj =
            (if referent_not_in_to_space R s1 obj then GetReadBarrierPointer s1 obj
             else if GetReadBarrierPointer s1 obj = GrayPtr then WhitePtr
                  else GetReadBarrierPointer s1 obj)"
      by (intro exI [of _ s1] exI [of _ ss] conjI)
  qed
qed

lemma build0_read_barrier:
  "kUseBakerReadBarrier build0" "USE_BAKER_OR_BROOKS_READ_BARRIER build0" "kIsDebugBuild build0"
  by (simp_all add: build0_def)

lemma ProcessMarkStackRef_state2:
  "case ProcessMarkStackRef build0 Mark_forwards runtime0 mutators_quiet 1 state2 2000 of
     Inr s' \<Rightarrow> ref_fields (heap s' 2000) = [2008] \<and> native_roots (heap s' 2000) = [2008] \<and>
               GetReadBarrierPointer s' 2000 = WhitePtr
   | Inl e \<Rightarrow> False"
  by (simp add: ProcessMarkStackRef_def Scan_def VisitReferences_def Process_def MarkRoot_def
        AssertToSpaceInvariantObjectVisitor_def AssertToSpaceInvariantRefsVisitor_def
        AssertToSpaceInvariant_def IsInFromSpace_def IsInUnevacFromSpace_def
        region_space_IsInToSpace_def referent_not_in_to_space_def
        AtomicSetReadBarrierPointer_def GetReadBarrierPointer_def SetReadBarrierPointer_def
        CompareExchangeWeakRelaxed_def Mark_forwards_def mutators_quiet_def runtime0_def
        DCHECK_def CHECK_def and_then_def Let_def
        build0_def state2_def state1_def state0_def zeroed_def classes0_def)

lemma Scan_state3:
  "Scan build0 Mark_forwards runtime0 mutators_quiet 1 state3 2016 = Inr state3"
  by (simp add: Scan_def VisitReferences_def IsInFromSpace_def runtime0_def
        DCHECK_def CHECK_def and_then_def Let_def
        build0_def state3_def state2_def state1_def state0_def zeroed_def classes0_def)

lemma state3_referent: "referent_not_in_to_space runtime0 state3 2016"
  "GetReadBarrierPointer state3 2016 = GrayPtr"
  by (simp_all add: referent_not_in_to_space_def runtime0_def region_space_IsInToSpace_def
        GetReadBarrierPointer_def state3_def state2_def state1_def state0_def zeroed_def)

lemma ProcessMarkStackRef_state3:
  "\<exists>s'. ProcessMarkStackRef build0 Mark_forwards runtime0 mutators_quiet 1 state3 2016 = Inr s'"
proof -
  have "AssertToSpaceInvariantObjectVisitor build0 1 state3 2016 = Inr state3"
    by (simp add: AssertToSpaceInvariantObjectVisitor_def VisitReferences_def
        AssertToSpaceInvariant_def IsInFromSpace_def region_space_IsInToSpace_def
        CHECK_def and_then_def
        state3_def state2_def state1_def state0_def zeroed_def classes0_def)
  moreover have "\<not> IsInFromSpace state3 2016" "\<not> IsInUnevacFromSpace state3 2016"
    "pending_next (heap state3 2016) \<noteq> 0"
    by (simp_all add: IsInFromSpace_def IsInUnevacFromSpace_def state3_def state2_def state1_def
          state0_def)
  ultimately show ?thesis
    using state3_referent build0_read_barrier
    by (simp add: ProcessMarkStackRef_def Scan_state3 DCHECK_def and_then_def
          del: One_nat_def)
qed

theorem ProcessMarkStackRef_gray_to_white_witness:
  "kUseBakerReadBarrier build0 \<and> USE_BAKER_OR_BROOKS_READ_BARRIER build0 \<and>
   (\<exists>s'. ProcessMarkStackRef build0 Mark_forwards runtime0 mutators_quiet 1 state2 2000 = Inr s' \<and>
      ref_fields (heap state2 2000) = [1000] \<and> ref_fields (heap s' 2000) = [2008] \<and>
      GetReadBarrierPointer state2 2000 = GrayPtr \<and>
      GetReadBarrierPointer s' 2000 = WhitePtr) \<and>
   (\<exists>s'. ProcessMarkStackRef build0 Mark_forwards runtime0 mutators_quiet 1 state3 2016 = Inr s' \<and>
      referent_not_in_to_space runtime0 state3 2016 \<and>
      GetReadBarrierPointer s' 2016 = GrayPtr)"
proof -
  note main = ProcessMarkStackRef_gray_to_white [OF build0_read_barrier(1,2)]
  obtain s2 where s2: "ProcessMarkStackRef build0 Mark_forwards runtime0 mutators_quiet 1 state2 2000 = Inr s2"
    "ref_fields (heap s2 2000) = [2008]"
    using ProcessMarkStackRef_state2 by (auto split: sum.splits)
  from main [of state2 2000 Mark_forwards runtime0 mutators_quiet 1, THEN conjunct2,
             rule_format, OF s2(1)] build0_read_barrier(3)
  obtain s1 where "GetReadBarrierPointer state2 2000 = GrayPtr"
    "GetReadBarrierPointer s1 2000 = GrayPtr"
    "GetReadBarrierPointer s2 2000 =
            (if referent_not_in_to_space runtime0 s1 2000 then GetReadBarrierPointer s1 2000
             else if GetReadBarrierPointer s1 2000 = GrayPtr then WhitePtr
                  else GetReadBarrierPointer s1 2000)"
    by blast
  moreover have "GetReadBarrierPointer s2 2000 = WhitePtr"
    using ProcessMarkStackRef_state2 s2(1) by simp
  moreover have "ref_fields (heap state2 2000) = [1000]" by (simp add: state2_def)
  ultimately have a: "\<exists>s'. ProcessMarkStackRef build0 Mark_forwards runtime0 mutators_quiet 1 state2 2000 = Inr s' \<and>
      ref_fields (heap state2 2000) = [1000] \<and> ref_fields (heap s' 2000) = [2008] \<and>
      GetReadBarrierPointer state2 2000 = GrayPtr \<and>
      GetReadBarrierPointer s' 2000 = WhitePtr"
    using s2 by blast
  obtain s3 where s3: "ProcessMarkStackRef build0 Mark_forwards runtime0 mutators_quiet 1 state3 2016 = Inr s3"
    using ProcessMarkStackRef_state3 by blast
  from main [of state3 2016 Mark_forwards runtime0 mutators_quiet 1, THEN conjunct2,
             rule_format, OF s3] Scan_state3 state3_referent
  have "GetReadBarrierPointer s3 2016 = GrayPtr" by auto
  with s3 state3_referent have b: "\<exists>s'. ProcessMarkStackRef build0 Mark_forwards runtime0 mutators_quiet 1 state3 2016 = Inr s' \<and>
      referent_not_in_to_space runtime0 state3 2016 \<and>
      GetReadBarrierPointer s' 2016 = GrayPtr" by blast
  from a b build0_read_barrier show ?thesis by blast
qed

end
